theory Spec2Isabelle
  imports Main "HOL-Library.Sublist" "HOL-Library.List_Lexorder"
begin

section \<open>Python values\<close>

subsection \<open>Strings\<close>

text \<open>
  A Python \<open>str\<close> is a sequence of Unicode code points, so it is modelled as a list of
  natural numbers. \<open>str\<close> turns an ASCII literal into that representation.
\<close>

type_synonym pystr = "nat list"

definition str :: "string \<Rightarrow> pystr" where
  "str s = map of_char s"

text \<open>
  \<open>c.isspace()\<close> on one character, which is also the set that \<open>str.strip()\<close> removes:
  U+0009..U+000D, U+001C..U+001F, U+0020, U+0085, U+00A0, U+1680, U+2000..U+200A,
  U+2028, U+2029, U+202F, U+205F, U+3000.
\<close>

definition isspace :: "nat \<Rightarrow> bool" where
  "isspace c = ((9 \<le> c \<and> c \<le> 13) \<or> (28 \<le> c \<and> c \<le> 32) \<or> c = 133 \<or> c = 160 \<or> c = 5760
     \<or> (8192 \<le> c \<and> c \<le> 8202) \<or> c = 8232 \<or> c = 8233 \<or> c = 8239 \<or> c = 8287 \<or> c = 12288)"

text \<open>
  The line boundaries of \<open>str.splitlines()\<close>: LF, VT, FF, CR, FS, GS, RS, NEL, LS, PS
  (and CR LF taken as one boundary, see \<open>splitlines_from\<close>).
\<close>

definition is_linebreak :: "nat \<Rightarrow> bool" where
  "is_linebreak c = ((10 \<le> c \<and> c \<le> 13) \<or> (28 \<le> c \<and> c \<le> 30) \<or> c = 133 \<or> c = 8232 \<or> c = 8233)"

definition strip :: "pystr \<Rightarrow> pystr" where
  "strip s = rev (dropWhile isspace (rev (dropWhile isspace s)))"

definition startswith :: "pystr \<Rightarrow> pystr \<Rightarrow> bool" where
  "startswith s p = prefix p s"

text \<open>\<open>sub in s\<close> for strings.\<close>

fun contains :: "pystr \<Rightarrow> pystr \<Rightarrow> bool" where
  "contains sub [] = (sub = [])"
| "contains sub (c # cs) = (prefix sub (c # cs) \<or> contains sub cs)"

text \<open>\<open>sep.join(xs)\<close>.\<close>

fun join :: "pystr \<Rightarrow> pystr list \<Rightarrow> pystr" where
  "join sep [] = []"
| "join sep [x] = x"
| "join sep (x # y # ys) = x @ sep @ join sep (y # ys)"

text \<open>\<open>s.split(sep)\<close> for a separator of one character; the empty string gives \<open>['']\<close>.\<close>

fun split_on :: "nat \<Rightarrow> pystr \<Rightarrow> pystr list" where
  "split_on sep [] = [[]]"
| "split_on sep (c # cs) =
     (if c = sep then [] # split_on sep cs
      else (case split_on sep cs of [] \<Rightarrow> [[c]] | p # ps \<Rightarrow> (c # p) # ps))"

text \<open>
  \<open>s.splitlines()\<close>: \<open>cur\<close> is the line read so far. A boundary closes the current line
  (also an empty one); the end of the text closes it only when it is not empty.
\<close>

fun splitlines_from :: "pystr \<Rightarrow> pystr \<Rightarrow> pystr list" where
  "splitlines_from cur [] = (if cur = [] then [] else [cur])"
| "splitlines_from cur [c] = (if is_linebreak c then [cur] else [cur @ [c]])"
| "splitlines_from cur (c # d # cs) =
     (if c = 13 \<and> d = 10 then cur # splitlines_from [] cs
      else if is_linebreak c then cur # splitlines_from [] (d # cs)
      else splitlines_from (cur @ [c]) (d # cs))"

definition splitlines :: "pystr \<Rightarrow> pystr list" where
  "splitlines s = splitlines_from [] s"

text \<open>
  What a file opened in text mode with the default \<open>newline=None\<close> hands to the program:
  CR LF and a lone CR are read as LF.
\<close>

fun universal_newlines :: "pystr \<Rightarrow> pystr" where
  "universal_newlines [] = []"
| "universal_newlines [c] = (if c = 13 then [10] else [c])"
| "universal_newlines (c # d # cs) =
     (if c = 13 \<and> d = 10 then 10 # universal_newlines cs
      else if c = 13 then 10 # universal_newlines (d # cs)
      else c # universal_newlines (d # cs))"

text \<open>
  \<open>k.lower()\<close> on a header name. \<open>http.client\<close> decodes header lines as ISO-8859-1, so
  only code points below 256 occur: A..Z and the capital letters U+00C0..U+00DE (the
  multiplication sign U+00D7 apart) move by 32.
\<close>

definition lower_cp :: "nat \<Rightarrow> nat" where
  "lower_cp c = (if (65 \<le> c \<and> c \<le> 90) \<or> (192 \<le> c \<and> c \<le> 222 \<and> c \<noteq> 215) then c + 32 else c)"

definition lower :: "pystr \<Rightarrow> pystr" where
  "lower s = map lower_cp s"

text \<open>
  \<open>urllib.parse.quote(s)\<close> with its default \<open>safe='/'\<close>: the string is encoded as UTF-8
  and every byte that is not a letter, a digit or one of \<open>_.-~/\<close> becomes \<open>%XX\<close> in
  upper-case hexadecimal. (A text decoded from UTF-8 holds no surrogate, the one input
  on which the encoding raises.)
\<close>

definition utf8 :: "nat \<Rightarrow> nat list" where
  "utf8 c =
     (if c < 128 then [c]
      else if c < 2048 then [192 + c div 64, 128 + c mod 64]
      else if c < 65536 then [224 + c div 4096, 128 + (c div 64) mod 64, 128 + c mod 64]
      else [240 + c div 262144, 128 + (c div 4096) mod 64, 128 + (c div 64) mod 64,
            128 + c mod 64])"

definition always_safe :: "nat \<Rightarrow> bool" where
  "always_safe b = ((65 \<le> b \<and> b \<le> 90) \<or> (97 \<le> b \<and> b \<le> 122) \<or> (48 \<le> b \<and> b \<le> 57)
     \<or> b = 95 \<or> b = 46 \<or> b = 45 \<or> b = 126)"

definition hexdigit :: "nat \<Rightarrow> nat" where
  "hexdigit n = (if n < 10 then 48 + n else 55 + n)"

definition quote_byte :: "nat \<Rightarrow> pystr" where
  "quote_byte b = (if always_safe b \<or> b = 47 then [b] else [37, hexdigit (b div 16), hexdigit (b mod 16)])"

definition quote :: "pystr \<Rightarrow> pystr" where
  "quote s = concat (map quote_byte (concat (map utf8 s)))"

subsection \<open>JSON values and dictionaries\<close>

text \<open>
  What \<open>json.loads\<close> returns. The program never looks into a number, so its value is
  kept as an integer only. An object is the list of its members in document order.
\<close>

datatype json = JNull | JBool bool | JNum int | JStr pystr | JList "json list"
  | JDict "(pystr \<times> json) list"

text \<open>
  \<open>d.get(k)\<close> on a dictionary built from a list of pairs: the last pair with the key
  wins, as in \<open>json.loads\<close> and in a dict comprehension.
\<close>

definition dict_get :: "('k \<times> 'v) list \<Rightarrow> 'k \<Rightarrow> 'v option" where
  "dict_get kvs k = map_of (rev kvs) k"

section \<open>The remote service\<close>

text \<open>
  One call of \<open>urllib.request.urlopen\<close> followed by \<open>read\<close>, \<open>decode\<close> and
  \<open>json.loads\<close> has one of three outcomes: a decoded JSON value with the response
  headers; an \<open>HTTPError\<close> with its status and, when it can be read and decoded, its
  body; or another exception (no connection, the 30 second timeout, a body that is not
  UTF-8 or not JSON). The service is a function of the URL and the bearer token: it
  answers a request the same way throughout a run.
\<close>

datatype failure = URLError | Timeout | UnicodeDecodeError | JSONDecodeError

datatype reply = Reply json "(pystr \<times> pystr) list" | HTTPError int "pystr option" | Failed failure

type_synonym remote = "pystr \<Rightarrow> pystr \<Rightarrow> reply"

datatype error =
    GitHubApiError int pystr pystr
  | Raised failure
  | RuntimeError pystr
  | AttributeError
  | SystemExit pystr
  | ReadError pystr
  | ValueError pystr

definition ORG :: pystr where
  "ORG = str ''CursorCult''"

definition API_BASE :: pystr where
  "API_BASE = str ''https://api.github.com''"

definition TAG_REQUIRED :: pystr where
  "TAG_REQUIRED = str ''v1''"

text \<open>
  \<open>urllib.request.Request(url)\<close> (line 38) parses the URL before anything is sent, and
  raises \<open>ValueError\<close> when it finds no URL type. It works on \<open>unwrap(url)\<close>, which trims
  the string and takes it out of \<open><...>\<close> and from behind \<open>URL:\<close>; on the part of that before
  the last \<open>#\<close> (\<open>_splittag\<close>); and there \<open>_splittype\<close> matches \<open>([^/:]+):(.*)\<close> at the start:
  the longest run of characters other than \<open>/\<close> and \<open>:\<close> is not empty and a \<open>:\<close> follows it.
  The program looks only at whether a type is found, so the type is returned as written.
\<close>

definition unwrap :: "pystr \<Rightarrow> pystr" where
  "unwrap url =
     (let u1 = strip url;
          u2 = (if u1 \<noteq> [] \<and> hd u1 = 60 \<and> last u1 = 62 then strip (butlast (tl u1)) else u1)
      in if take 4 u2 = str ''URL:'' then strip (drop 4 u2) else u2)"

definition splittag :: "pystr \<Rightarrow> pystr" where
  "splittag url = (if 35 \<in> set url then rev (tl (dropWhile (\<lambda>c. c \<noteq> 35) (rev url))) else url)"

definition splittype :: "pystr \<Rightarrow> pystr option" where
  "splittype url =
     (let scheme = takeWhile (\<lambda>c. c \<noteq> 47 \<and> c \<noteq> 58) url;
          rest = dropWhile (\<lambda>c. c \<noteq> 47 \<and> c \<noteq> 58) url
      in if scheme \<noteq> [] \<and> rest \<noteq> [] \<and> hd rest = 58 then Some scheme else None)"

text \<open>
  \<open>_request_json\<close> (lines 37-54). Every remote function returns, next to its result, the
  list of URLs it has called \<open>_request_json\<close> with, in order: these calls are the effect of
  the validator. A URL that \<open>Request\<close> refuses is in the list as well, although nothing is
  sent for it. What \<open>urlopen\<close> does with an accepted URL is the answer of the service to
  the URL as the program wrote it. The headers come back with lower-cased names.
\<close>

definition request_json ::
  "remote \<Rightarrow> pystr \<Rightarrow> pystr \<Rightarrow> (error + json \<times> (pystr \<times> pystr) list) \<times> pystr list" where
  "request_json R url token =
     (case splittype (splittag (unwrap url)) of
        None \<Rightarrow> (Inl (ValueError url), [url])
      | Some scheme \<Rightarrow>
          (case R url token of
             Reply data hs \<Rightarrow> (Inr (data, map (\<lambda>(k, v). (lower k, v)) hs), [url])
           | HTTPError code body \<Rightarrow>
               (Inl (GitHubApiError code url (case body of None \<Rightarrow> [] | Some b \<Rightarrow> b)), [url])
           | Failed x \<Rightarrow> (Inl (Raised x), [url])))"

text \<open>
  \<open>re.search(r"<([^>]+)>", part)\<close> and its group 1: at the leftmost \<open><\<close> that is followed
  by at least one character other than \<open>>\<close> and then, later, by a \<open>>\<close>, the characters
  up to that \<open>>\<close>.
\<close>

fun search_angle :: "pystr \<Rightarrow> pystr option" where
  "search_angle [] = None"
| "search_angle (c # cs) =
     (if c = 60 \<and> takeWhile (\<lambda>x. x \<noteq> 62) cs \<noteq> [] \<and> dropWhile (\<lambda>x. x \<noteq> 62) cs \<noteq> []
      then Some (takeWhile (\<lambda>x. x \<noteq> 62) cs)
      else search_angle cs)"

text \<open>
  The loop over the parts of the \<open>Link\<close> header (lines 65-74): empty parts are skipped,
  and the first part that contains \<open>rel="next"\<close> ends the loop, with or without a URL.
\<close>

fun find_next :: "pystr list \<Rightarrow> pystr option" where
  "find_next [] = None"
| "find_next (p # ps) =
     (let part = strip p in
      if part = [] then find_next ps
      else if contains (str ''rel=\"next\"'') part then search_angle part
      else find_next ps)"

definition next_link :: "(pystr \<times> pystr) list \<Rightarrow> pystr option" where
  "next_link headers =
     (let link = (case dict_get headers (str ''link'') of None \<Rightarrow> [] | Some v \<Rightarrow> v)
      in find_next (split_on 44 link))"

text \<open>
  \<open>_paginate\<close> (lines 57-75) is a generator, and the \<open>for\<close> loop that consumes it may
  return in the middle of a page, after which no further page is requested. The model
  passes the body of that loop to the generator: for one item the body raises, goes on
  to the next item, or returns a value.
\<close>

datatype 'r flow = Continue | Return 'r

fun for_each :: "(json \<Rightarrow> error + 'r flow) \<Rightarrow> json list \<Rightarrow> error + 'r flow" where
  "for_each body [] = Inr Continue"
| "for_each body (item # items) =
     (case body item of
        Inl e \<Rightarrow> Inl e
      | Inr (Return r) \<Rightarrow> Inr (Return r)
      | Inr Continue \<Rightarrow> for_each body items)"

text \<open>
  The result is \<open>Inr (Some r)\<close> when the body returned \<open>r\<close>, \<open>Inr None\<close> when the
  generator is exhausted, \<open>Inl e\<close> when a request or the body raised. A listing whose
  continuation links never end makes the loop run forever: the value is then \<open>None\<close>.
\<close>

partial_function (option) paginate ::
  "remote \<Rightarrow> (json \<Rightarrow> error + 'r flow) \<Rightarrow> pystr option \<Rightarrow> pystr
     \<Rightarrow> ((error + 'r option) \<times> pystr list) option" where
  "paginate R body url token =
     (case url of
        None \<Rightarrow> Some (Inr None, [])
      | Some u \<Rightarrow>
          if u = [] then Some (Inr None, [])
          else (case request_json R u token of
                  (Inl e, q) \<Rightarrow> Some (Inl e, q)
                | (Inr (data, headers), q) \<Rightarrow>
                    (case data of
                       JList items \<Rightarrow>
                         (case for_each body items of
                            Inl e \<Rightarrow> Some (Inl e, q)
                          | Inr (Return r) \<Rightarrow> Some (Inr (Some r), q)
                          | Inr Continue \<Rightarrow>
                              Option.bind (paginate R body (next_link headers) token)
                                (\<lambda>(r, q'). Some (r, q @ q')))
                     | _ \<Rightarrow> Some (Inl (RuntimeError u), q))))"

declare paginate.simps [code]

definition repo_url :: "pystr \<Rightarrow> pystr" where
  "repo_url repo = API_BASE @ str ''/repos/'' @ quote ORG @ str ''/'' @ quote repo"

definition tags_url :: "pystr \<Rightarrow> pystr" where
  "tags_url repo = repo_url repo @ str ''/tags?per_page=100''"

text \<open>\<open>repo_exists\<close> (lines 78-92).\<close>

definition repo_exists :: "remote \<Rightarrow> pystr \<Rightarrow> pystr \<Rightarrow> (error + bool) \<times> pystr list" where
  "repo_exists R repo token =
     (case request_json R (repo_url repo) token of
        (Inl (GitHubApiError status u b), q) \<Rightarrow>
          if status = 404 then (Inr False, q) else (Inl (GitHubApiError status u b), q)
      | (Inl e, q) \<Rightarrow> (Inl e, q)
      | (Inr (data, _), q) \<Rightarrow>
          (case data of
             JDict d \<Rightarrow>
               if dict_get d (str ''archived'') = Some (JBool True) then (Inr False, q)
               else if dict_get d (str ''fork'') = Some (JBool True) then (Inr False, q)
               else (Inr True, q)
           | _ \<Rightarrow> (Inr False, q)))"

text \<open>
  The body of the loop of \<open>repo_has_required_tag\<close> (lines 98-102): \<open>item.get\<close> raises
  \<open>AttributeError\<close> on anything but an object.
\<close>

definition tag_body :: "json \<Rightarrow> error + bool flow" where
  "tag_body item =
     (case item of
        JDict d \<Rightarrow>
          (case dict_get d (str ''name'') of
             Some (JStr name) \<Rightarrow> if strip name = TAG_REQUIRED then Inr (Return True) else Inr Continue
           | _ \<Rightarrow> Inr Continue)
      | _ \<Rightarrow> Inl AttributeError)"

text \<open>\<open>repo_has_required_tag\<close> (lines 95-103).\<close>

definition repo_has_required_tag ::
  "remote \<Rightarrow> pystr \<Rightarrow> pystr \<Rightarrow> ((error + bool) \<times> pystr list) option" where
  "repo_has_required_tag R repo token =
     (case paginate R tag_body (Some (tags_url repo)) token of
        None \<Rightarrow> None
      | Some (Inl e, q) \<Rightarrow> Some (Inl e, q)
      | Some (Inr (Some b), q) \<Rightarrow> Some (Inr b, q)
      | Some (Inr None, q) \<Rightarrow> Some (Inr False, q))"

section \<open>Reading and writing rule sets\<close>

text \<open>\<open>normalize_rule_name\<close> (lines 106-114); \<open>None\<close> is the source's \<open>None\<close>.\<close>

definition normalize_rule_name :: "pystr \<Rightarrow> pystr option" where
  "normalize_rule_name raw =
     (let s = strip raw in
      if s = [] \<or> startswith s (str ''#'') then None
      else if (\<exists>c\<in>set s. isspace c) then None
      else if startswith s (str ''.'') \<or> startswith s (str ''_'') then None
      else Some s)"

text \<open>
  The state the program works on: the process environment, whether \<open>rulesets/\<close> is a
  directory, the regular files that \<open>rulesets/*.txt\<close> matches (in the order the directory
  yields them), the content of every file (its bytes decoded as UTF-8), the URLs
  that \<open>_request_json\<close> was called with so far, and the lines printed so far.
\<close>

record world =
  environ :: "pystr \<rightharpoonup> pystr"
  rulesets_is_dir :: bool
  rulesets_glob :: "pystr list"
  files :: "pystr \<rightharpoonup> pystr"
  requests :: "pystr list"
  stdout :: "pystr list"

text \<open>
  \<open>path.read_text(encoding="utf-8")\<close> reads in text mode; a file that is not there or
  cannot be decoded raises. \<open>path.write_text\<close> writes the text as it is (the line
  separator of a POSIX system is LF).
\<close>

definition read_text :: "world \<Rightarrow> pystr \<Rightarrow> error + pystr" where
  "read_text w path =
     (case files w path of
        None \<Rightarrow> Inl (ReadError path)
      | Some content \<Rightarrow> Inr (universal_newlines content))"

definition write_text :: "world \<Rightarrow> pystr \<Rightarrow> pystr \<Rightarrow> world" where
  "write_text w path content = w\<lparr>files := (files w)(path \<mapsto> content)\<rparr>"

definition print_line :: "world \<Rightarrow> pystr \<Rightarrow> world" where
  "print_line w s = w\<lparr>stdout := stdout w @ [s]\<rparr>"

text \<open>The loop of \<open>read_ruleset_file\<close> (lines 122-129), with its two variables.\<close>

fun read_loop :: "pystr list \<Rightarrow> pystr list \<Rightarrow> pystr set \<Rightarrow> pystr list" where
  "read_loop [] rules seen = rules"
| "read_loop (line # raw_lines) rules seen =
     (case normalize_rule_name line of
        None \<Rightarrow> read_loop raw_lines rules seen
      | Some name \<Rightarrow>
          if name \<in> seen then read_loop raw_lines rules seen
          else read_loop raw_lines (rules @ [name]) (insert name seen))"

text \<open>\<open>read_ruleset_file\<close> (lines 117-130); \<open>dropped\<close> is returned as it was created.\<close>

definition read_ruleset_file :: "world \<Rightarrow> pystr \<Rightarrow> error + pystr list \<times> pystr list" where
  "read_ruleset_file w path =
     (case read_text w path of
        Inl e \<Rightarrow> Inl e
      | Inr text \<Rightarrow> Inr (read_loop (splitlines text) [] {}, []))"

text \<open>\<open>write_ruleset_file\<close> (lines 133-135).\<close>

definition write_ruleset_file :: "world \<Rightarrow> pystr \<Rightarrow> pystr list \<Rightarrow> world" where
  "write_ruleset_file w path rules =
     write_text w path (join (str ''\<newline>'') rules @ (if rules \<noteq> [] then str ''\<newline>'' else []))"

section \<open>Reconciliation\<close>

text \<open>
  The body of the loop of \<open>sync_ruleset\<close> (lines 143-149) for one rule: \<open>Inr True\<close> when the
  rule reaches \<open>kept.append\<close>, \<open>Inr False\<close> when it is appended to \<open>removed\<close>.
\<close>

definition check_rule ::
  "remote \<Rightarrow> pystr \<Rightarrow> pystr \<Rightarrow> ((error + bool) \<times> pystr list) option" where
  "check_rule R rule token =
     (case repo_exists R rule token of
        (Inl e, q) \<Rightarrow> Some (Inl e, q)
      | (Inr False, q) \<Rightarrow> Some (Inr False, q)
      | (Inr True, q) \<Rightarrow>
          Option.bind (repo_has_required_tag R rule token) (\<lambda>(r, q'). Some (r, q @ q')))"

text \<open>The loop of \<open>sync_ruleset\<close> (lines 142-149) with its two lists.\<close>

fun sync_loop ::
  "remote \<Rightarrow> pystr \<Rightarrow> pystr list \<Rightarrow> pystr list \<Rightarrow> pystr list
     \<Rightarrow> ((error + pystr list \<times> pystr list) \<times> pystr list) option" where
  "sync_loop R token [] kept removed = Some (Inr (kept, removed), [])"
| "sync_loop R token (rule # rules) kept removed =
     (case check_rule R rule token of
        None \<Rightarrow> None
      | Some (Inl e, q) \<Rightarrow> Some (Inl e, q)
      | Some (Inr ok, q) \<Rightarrow>
          Option.bind
            (sync_loop R token rules (if ok then kept @ [rule] else kept)
               (if ok then removed else removed @ [rule]))
            (\<lambda>(r, q'). Some (r, q @ q')))"

definition record_requests :: "world \<Rightarrow> pystr list \<Rightarrow> world" where
  "record_requests w q = w\<lparr>requests := requests w @ q\<rparr>"

text \<open>\<open>sync_ruleset\<close> (lines 138-156).\<close>

definition sync_ruleset ::
  "remote \<Rightarrow> pystr \<Rightarrow> pystr \<Rightarrow> bool \<Rightarrow> world \<Rightarrow> ((error + bool \<times> pystr list) \<times> world) option" where
  "sync_ruleset R path token check_only w =
     (case read_ruleset_file w path of
        Inl e \<Rightarrow> Some (Inl e, w)
      | Inr (rules, _) \<Rightarrow>
          (case sync_loop R token rules [] [] of
             None \<Rightarrow> None
           | Some (Inl e, q) \<Rightarrow> Some (Inl e, record_requests w q)
           | Some (Inr (kept, removed), q) \<Rightarrow>
               (let w1 = record_requests w q in
                case read_text w1 path of
                  Inl e \<Rightarrow> Some (Inl e, w1)
                | Inr original \<Rightarrow>
                    (let updated = join (str ''\<newline>'') kept @ (if kept \<noteq> [] then str ''\<newline>'' else []);
                         changed = (updated \<noteq> original)
                     in if changed \<and> \<not> check_only
                        then Some (Inr (changed, removed), write_text w1 path updated)
                        else Some (Inr (changed, removed), w1)))))"

section \<open>The driver\<close>


text \<open>A natural number in decimal, as an f-string formats \<open>len(removed)\<close>.\<close>

function decimal :: "nat \<Rightarrow> pystr" where
  "decimal n = (if n < 10 then [48 + n] else decimal (n div 10) @ [48 + n mod 10])"
  by pat_completeness auto
termination
  by (relation "measure id") auto

declare decimal.simps [simp del]

text \<open>What one iteration of the loop of \<open>main\<close> prints (lines 179-185).\<close>

definition report :: "pystr \<Rightarrow> bool \<Rightarrow> bool \<Rightarrow> pystr list \<Rightarrow> world \<Rightarrow> world" where
  "report path check_only changed removed w =
     (let w2 = (if removed \<noteq> []
                then print_line w (path @ str '': removed '' @ decimal (length removed)
                       @ str '' -> '' @ join (str '', '') removed)
                else w)
      in if changed
         then print_line w2 (path @ str '': ''
                @ (if check_only then str ''would change'' else str ''updated''))
         else print_line w2 (path @ str '': ok''))"

text \<open>The loop of \<open>main\<close> (lines 177-185).\<close>

primrec main_loop ::
  "remote \<Rightarrow> pystr \<Rightarrow> bool \<Rightarrow> pystr list \<Rightarrow> bool \<Rightarrow> world \<Rightarrow> ((error + bool) \<times> world) option" where
  "main_loop R token check_only [] = (\<lambda>changed_any w. Some (Inr changed_any, w))"
| "main_loop R token check_only (path # paths) = (\<lambda>changed_any w.
     (case sync_ruleset R path token check_only w of
        None \<Rightarrow> None
      | Some (Inl e, w1) \<Rightarrow> Some (Inl e, w1)
      | Some (Inr (changed, removed), w1) \<Rightarrow>
          main_loop R token check_only paths (changed_any \<or> changed)
            (report path check_only changed removed w1)))"


section \<open>Notions used in the statements\<close>

text \<open>The conditions under which \<open>normalize_rule_name\<close> accepts a trimmed line.\<close>

definition valid_entry :: "pystr \<Rightarrow> bool" where
  "valid_entry s \<longleftrightarrow> s \<noteq> [] \<and> \<not> startswith s (str ''#'') \<and> (\<forall>c\<in>set s. \<not> isspace c)
     \<and> \<not> startswith s (str ''.'') \<and> \<not> startswith s (str ''_'')"

text \<open>
  The verdict of the loop body for a rule, when it returns one; \<open>eligible\<close> says that the
  rule is kept. \<open>trace_of\<close> is the list of URLs that \<open>_request_json\<close> was called with for
  the rule.
\<close>

definition verdict :: "remote \<Rightarrow> pystr \<Rightarrow> pystr \<Rightarrow> bool option" where
  "verdict R token rule =
     (case check_rule R rule token of Some (Inr b, q) \<Rightarrow> Some b | _ \<Rightarrow> None)"

definition eligible :: "remote \<Rightarrow> pystr \<Rightarrow> pystr \<Rightarrow> bool" where
  "eligible R token rule \<longleftrightarrow> verdict R token rule = Some True"

definition trace_of :: "remote \<Rightarrow> pystr \<Rightarrow> pystr \<Rightarrow> pystr list" where
  "trace_of R token rule = (case check_rule R rule token of Some (r, q) \<Rightarrow> q | None \<Rightarrow> [])"

text \<open>Every entry followed by one newline.\<close>

definition serialized :: "pystr list \<Rightarrow> pystr" where
  "serialized kept = concat (map (\<lambda>e. e @ [10]) kept)"

text \<open>
  A sample service: \<open>r1\<close> exists and carries the required tag on the second page of its
  tag listing, \<open>r3\<close> is archived, the lookup of \<open>r4\<close> is refused with status 403, \<open>r5\<close>
  exists but its tag listing is not there, and every other URL is answered with status 404.
\<close>

definition demo_remote :: remote where
  "demo_remote url token =
     (if url = str ''https://api.github.com/repos/CursorCult/r1''
      then Reply (JDict [(str ''archived'', JBool False), (str ''fork'', JBool False)]) []
      else if url = str ''https://api.github.com/repos/CursorCult/r1/tags?per_page=100''
      then Reply (JList [JDict [(str ''name'', JStr (str ''v0''))]])
             [(str ''Content-Type'', str ''application/json''),
              (str ''Link'', str ''<https://api.github.com/p9>; rel=\"last\", <https://api.github.com/p2>; rel=\"next\"'')]
      else if url = str ''https://api.github.com/p2''
      then Reply (JList [JDict [(str ''name'', JStr (str '' v1''))]])
             [(str ''Link'', str ''<https://api.github.com/p3>; rel=\"next\"'')]
      else if url = str ''https://api.github.com/repos/CursorCult/r3''
      then Reply (JDict [(str ''archived'', JBool True), (str ''fork'', JBool False)]) []
      else if url = str ''https://api.github.com/repos/CursorCult/r4''
      then HTTPError 403 (Some (str ''rate limit exceeded''))
      else if url = str ''https://api.github.com/repos/CursorCult/r5''
      then Reply (JDict []) []
      else HTTPError 404 None)"

text \<open>A sample state: one rule set naming \<open>r1\<close> and \<open>r2\<close>.\<close>

definition demo_world :: world where
  "demo_world =
     \<lparr>environ = [str ''GITHUB_TOKEN'' \<mapsto> str ''t''],
      rulesets_is_dir = True,
      rulesets_glob = [str ''rulesets/a.txt''],
      files = [str ''rulesets/a.txt'' \<mapsto> str ''r1\<newline>r2\<newline>''],
      requests = [],
      stdout = []\<rparr>"

text \<open>
  What the reply to the metadata lookup of a repository says: the reply is a JSON object
  whose \<open>archived\<close> and \<open>fork\<close> members are not \<open>true\<close>.
\<close>

definition found_active :: "remote \<Rightarrow> pystr \<Rightarrow> pystr \<Rightarrow> bool" where
  "found_active R token repo =
     (case R (repo_url repo) token of
        Reply (JDict d) hs \<Rightarrow>
          dict_get d (str ''archived'') \<noteq> Some (JBool True) \<and> dict_get d (str ''fork'') \<noteq> Some (JBool True)
      | _ \<Rightarrow> False)"

text \<open>
  A page of a tag listing: the items that \<open>_request_json\<close> returns for a URL and the URL
  that \<open>_paginate\<close> takes from the headers, when the payload is a JSON list.
\<close>

definition tag_page :: "remote \<Rightarrow> pystr \<Rightarrow> pystr \<Rightarrow> (json list \<times> pystr option) option" where
  "tag_page R token u =
     (case request_json R u token of
        (Inr (JList items, headers), q) \<Rightarrow> Some (items, next_link headers)
      | _ \<Rightarrow> None)"

definition page_next :: "remote \<Rightarrow> pystr \<Rightarrow> pystr \<Rightarrow> pystr option" where
  "page_next R token u = (case tag_page R token u of Some (items, n) \<Rightarrow> n | None \<Rightarrow> None)"

definition is_object :: "json \<Rightarrow> bool" where
  "is_object item = (case item of JDict d \<Rightarrow> True | _ \<Rightarrow> False)"

text \<open>A tag whose name is a string that equals the required marker after trimming.\<close>

definition has_marker :: "json \<Rightarrow> bool" where
  "has_marker item =
     (case item of
        JDict d \<Rightarrow> (case dict_get d (str ''name'') of Some (JStr name) \<Rightarrow> strip name = TAG_REQUIRED | _ \<Rightarrow> False)
      | _ \<Rightarrow> False)"

definition well_formed_page :: "remote \<Rightarrow> pystr \<Rightarrow> pystr \<Rightarrow> bool" where
  "well_formed_page R token u =
     (case tag_page R token u of Some (items, n) \<Rightarrow> list_all is_object items | None \<Rightarrow> False)"

definition marker_on :: "remote \<Rightarrow> pystr \<Rightarrow> pystr \<Rightarrow> bool" where
  "marker_on R token u =
     (case tag_page R token u of Some (items, n) \<Rightarrow> list_ex has_marker items | None \<Rightarrow> False)"

text \<open>Consecutive pages are joined by continuation pointers.\<close>

fun linked :: "remote \<Rightarrow> pystr \<Rightarrow> pystr list \<Rightarrow> bool" where
  "linked R token (u # v # us) = (page_next R token u = Some v \<and> linked R token (v # us))"
| "linked R token us = True"














text \<open>
  How a request was answered: with a decoded payload, or with status 404.
\<close>

definition answered :: "remote \<Rightarrow> pystr \<Rightarrow> pystr \<Rightarrow> bool" where
  "answered R token u = (case R u token of Reply d hs \<Rightarrow> True | _ \<Rightarrow> False)"

definition not_found :: "remote \<Rightarrow> pystr \<Rightarrow> pystr \<Rightarrow> bool" where
  "not_found R token u = (case R u token of HTTPError code body \<Rightarrow> code = 404 | _ \<Rightarrow> False)"

text \<open>
  A service that answers every request with status 200 and a JSON string, as a gateway in
  front of the real service may do.
\<close>

definition unexpected_remote :: remote where
  "unexpected_remote url token = Reply (JStr (str ''maintenance'')) []"

text \<open>A sample state whose one file ends its line with CR LF.\<close>

definition crlf_world :: world where
  "crlf_world = demo_world\<lparr>files := [str ''rulesets/a.txt'' \<mapsto> str ''r1'' @ [13, 10]]\<rparr>"

section \<open>Normalization\<close>

lemma str_newline: "str ''\<newline>'' = [10]"
  by (simp add: str_def)

lemma linebreak_isspace: "is_linebreak c \<Longrightarrow> isspace c"
  unfolding is_linebreak_def isspace_def by arith

lemma strip_id: "\<forall>c\<in>set s. \<not> isspace c \<Longrightarrow> strip s = s"
proof -
  assume a: "\<forall>c\<in>set s. \<not> isspace c"
  have 1: "dropWhile isspace s = s"
    using a by (cases s) simp_all
  have "\<forall>c\<in>set (rev s). \<not> isspace c" using a by simp
  then have "dropWhile isspace (rev s) = rev s"
    by (cases "rev s") simp_all
  with 1 show ?thesis by (simp add: strip_def)
qed

lemma normalize_eq:
  "normalize_rule_name raw = (if valid_entry (strip raw) then Some (strip raw) else None)"
  by (simp add: normalize_rule_name_def Let_def valid_entry_def)

lemma normalize_SomeD: "normalize_rule_name raw = Some s \<Longrightarrow> s = strip raw \<and> valid_entry s"
  by (simp add: normalize_eq split: if_splits)

lemma normalize_valid: "valid_entry s \<Longrightarrow> normalize_rule_name s = Some s"
proof -
  assume v: "valid_entry s"
  then have "strip s = s" by (simp add: valid_entry_def strip_id)
  with v show ?thesis by (simp add: normalize_eq)
qed

lemma read_loop_snoc:
  "read_loop (ls @ [l]) rules (set rules) =
     (case normalize_rule_name l of
        None \<Rightarrow> read_loop ls rules (set rules)
      | Some n \<Rightarrow> if n \<in> set (read_loop ls rules (set rules)) then read_loop ls rules (set rules)
                  else read_loop ls rules (set rules) @ [n])"
proof (induction ls arbitrary: rules)
  case Nil
  show ?case by (simp split: option.splits)
next
  case (Cons a ls)
  show ?case
  proof (cases "normalize_rule_name a")
    case None
    then show ?thesis using Cons.IH[of rules] by (simp split: option.splits)
  next
    case (Some n)
    show ?thesis
    proof (cases "n \<in> set rules")
      case True
      then show ?thesis using Some Cons.IH[of rules] by (simp split: option.splits)
    next
      case False
      have "insert n (set rules) = set (rules @ [n])" by simp
      then show ?thesis using Some False Cons.IH[of "rules @ [n]"] by (simp split: option.splits)
    qed
  qed
qed

lemma set_read_loop:
  "set (read_loop ls rules (set rules)) = set rules \<union> {n. \<exists>l\<in>set ls. normalize_rule_name l = Some n}"
proof (induction ls arbitrary: rules)
  case Nil
  show ?case by simp
next
  case (Cons a ls)
  show ?case
  proof (cases "normalize_rule_name a")
    case None
    then have "read_loop (a # ls) rules (set rules) = read_loop ls rules (set rules)" by simp
    moreover have "{n. \<exists>l\<in>set (a # ls). normalize_rule_name l = Some n} = {n. \<exists>l\<in>set ls. normalize_rule_name l = Some n}"
      using None by auto
    ultimately show ?thesis using Cons.IH[of rules] by simp
  next
    case (Some n)
    have split: "{m. \<exists>l\<in>set (a # ls). normalize_rule_name l = Some m} = insert n {m. \<exists>l\<in>set ls. normalize_rule_name l = Some m}"
      using Some by auto
    show ?thesis
    proof (cases "n \<in> set rules")
      case True
      then have "read_loop (a # ls) rules (set rules) = read_loop ls rules (set rules)" using Some by simp
      then show ?thesis using Cons.IH[of rules] split True by auto
    next
      case False
      have "read_loop (a # ls) rules (set rules) = read_loop ls (rules @ [n]) (set (rules @ [n]))"
        using Some False by simp
      then show ?thesis using Cons.IH[of "rules @ [n]"] split by auto
    qed
  qed
qed

lemma distinct_read_loop:
  "distinct rules \<Longrightarrow> distinct (read_loop ls rules (set rules))"
proof (induction ls arbitrary: rules)
  case Nil
  then show ?case by simp
next
  case (Cons a ls)
  show ?case
  proof (cases "normalize_rule_name a")
    case None
    then show ?thesis using Cons by simp
  next
    case (Some n)
    show ?thesis
    proof (cases "n \<in> set rules")
      case True
      then show ?thesis using Some Cons by simp
    next
      case False
      have eq: "read_loop (a # ls) rules (set rules) = read_loop ls (rules @ [n]) (set (rules @ [n]))"
        using Some False by simp
      have "distinct (rules @ [n])" using False Cons.prems by simp
      from Cons.IH[OF this] show ?thesis unfolding eq .
    qed
  qed
qed

lemma read_loop_valid:
  assumes "e \<in> set (read_loop ls [] {})"
  shows "valid_entry e"
proof -
  from assms set_read_loop[of ls "[]"] obtain l where "normalize_rule_name l = Some e" by auto
  then show ?thesis using normalize_SomeD by blast
qed

lemma read_loop_mem:
  "s \<in> set (read_loop ls [] {}) \<longleftrightarrow> valid_entry s \<and> s \<in> strip ` set ls"
proof
  assume "s \<in> set (read_loop ls [] {})"
  with set_read_loop[of ls "[]"] obtain l where l: "l \<in> set ls" "normalize_rule_name l = Some s" by auto
  from normalize_SomeD[OF l(2)] l(1) show "valid_entry s \<and> s \<in> strip ` set ls" by auto
next
  assume a: "valid_entry s \<and> s \<in> strip ` set ls"
  then obtain l where l: "l \<in> set ls" "strip l = s" by auto
  with a have "normalize_rule_name l = Some s" by (simp add: normalize_eq)
  with l(1) set_read_loop[of ls "[]"] show "s \<in> set (read_loop ls [] {})" by auto
qed

text \<open>
  Claim C7. Normalization goes through the lines in order. A line adds its trimmed form
  to the entries exactly when that form is not empty, does not start with \<open>#\<close>, \<open>.\<close> or
  \<open>_\<close>, holds no whitespace character, and is not the trimmed form of an earlier line;
  otherwise the line changes nothing. The function is total and has no error result.
\<close>

theorem normalization_step:
  "read_loop [] [] {} = [] \<and>
   read_loop (ls @ [l]) [] {} =
     (if strip l \<noteq> [] \<and> \<not> startswith (strip l) (str ''#'') \<and> \<not> startswith (strip l) (str ''.'')
         \<and> \<not> startswith (strip l) (str ''_'') \<and> (\<forall>c\<in>set (strip l). \<not> isspace c)
         \<and> strip l \<notin> strip ` set ls
      then read_loop ls [] {} @ [strip l]
      else read_loop ls [] {})"
proof -
  have cond: "(strip l \<noteq> [] \<and> \<not> startswith (strip l) (str ''#'') \<and> \<not> startswith (strip l) (str ''.'')
         \<and> \<not> startswith (strip l) (str ''_'') \<and> (\<forall>c\<in>set (strip l). \<not> isspace c)) = valid_entry (strip l)"
    unfolding valid_entry_def by blast
  have snoc: "read_loop (ls @ [l]) [] {} =
     (case normalize_rule_name l of
        None \<Rightarrow> read_loop ls [] {}
      | Some n \<Rightarrow> if n \<in> set (read_loop ls [] {}) then read_loop ls [] {} else read_loop ls [] {} @ [n])"
    using read_loop_snoc[of ls l "[]"] by (simp split: option.splits)
  have step: "read_loop (ls @ [l]) [] {} =
     (if valid_entry (strip l) \<and> strip l \<notin> strip ` set ls then read_loop ls [] {} @ [strip l]
      else read_loop ls [] {})"
  proof (cases "valid_entry (strip l)")
    case False
    then show ?thesis using snoc by (simp add: normalize_eq)
  next
    case True
    then have "strip l \<in> set (read_loop ls [] {}) \<longleftrightarrow> strip l \<in> strip ` set ls"
      using read_loop_mem[of "strip l" ls] by simp
    then show ?thesis using snoc True by (simp add: normalize_eq)
  qed
  have "(strip l \<noteq> [] \<and> \<not> startswith (strip l) (str ''#'') \<and> \<not> startswith (strip l) (str ''.'')
         \<and> \<not> startswith (strip l) (str ''_'') \<and> (\<forall>c\<in>set (strip l). \<not> isspace c)
         \<and> strip l \<notin> strip ` set ls) = (valid_entry (strip l) \<and> strip l \<notin> strip ` set ls)"
    unfolding cond[symmetric] by blast
  then show ?thesis using step by simp
qed

theorem normalization_step_witness:
  "read_loop (map str ['' a'', ''a b'', ''#c'', ''.h'', ''a'', ''_x''] @ [str ''b '']) [] {} = [str ''a'', str ''b'']"
  using normalization_step[of "map str ['' a'', ''a b'', ''#c'', ''.h'', ''a'', ''_x'']" "str ''b ''"]
  by (simp add: str_def strip_def isspace_def startswith_def normalize_rule_name_def)

section \<open>Serialization and the loop of the reconciler\<close>

lemma serialized_eq:
  "join (str ''\<newline>'') kept @ (if kept \<noteq> [] then str ''\<newline>'' else []) = serialized kept"
  unfolding serialized_def str_newline
  by (induction kept rule: induct_list012) simp_all

lemma serialized_empty: "serialized kept = [] \<longleftrightarrow> kept = []"
  by (cases kept) (simp_all add: serialized_def)

lemma splitlines_from_line:
  assumes "\<forall>c\<in>set e. \<not> is_linebreak c"
  shows "splitlines_from cur (e @ 10 # rest) = (cur @ e) # splitlines_from [] rest"
  using assms
proof (induction e arbitrary: cur)
  case Nil
  have lb: "is_linebreak 10" by (simp add: is_linebreak_def)
  show ?case using lb by (cases rest) simp_all
next
  case (Cons c e)
  obtain d cs where dc: "e @ 10 # rest = d # cs" by (cases "e @ 10 # rest") simp_all
  have nl: "\<not> is_linebreak c" using Cons.prems by simp
  then have "c \<noteq> 13" by (auto simp: is_linebreak_def)
  then have "splitlines_from cur (c # d # cs) = splitlines_from (cur @ [c]) (d # cs)"
    using nl by simp
  also have "\<dots> = (cur @ [c] @ e) # splitlines_from [] rest"
    using Cons.IH[of "cur @ [c]"] Cons.prems dc by simp
  finally show ?case using dc by simp
qed

lemma splitlines_serialized:
  "\<forall>e\<in>set kept. \<forall>c\<in>set e. \<not> is_linebreak c \<Longrightarrow> splitlines (serialized kept) = kept"
proof (induction kept)
  case Nil
  show ?case by (simp add: splitlines_def serialized_def)
next
  case (Cons e kept)
  have "splitlines (serialized (e # kept)) = splitlines_from [] (e @ 10 # serialized kept)"
    by (simp add: splitlines_def serialized_def)
  also have "\<dots> = e # splitlines_from [] (serialized kept)"
    using splitlines_from_line[of e "[]" "serialized kept"] Cons.prems by simp
  finally show ?case using Cons by (simp add: splitlines_def)
qed

lemma valid_no_linebreak: "valid_entry e \<Longrightarrow> \<forall>c\<in>set e. \<not> is_linebreak c"
  using linebreak_isspace by (auto simp: valid_entry_def)

lemma read_loop_fixed:
  "distinct xs \<Longrightarrow> \<forall>e\<in>set xs. valid_entry e \<Longrightarrow> set xs \<inter> set rules = {}
     \<Longrightarrow> read_loop xs rules (set rules) = rules @ xs"
proof (induction xs arbitrary: rules)
  case Nil
  show ?case by simp
next
  case (Cons x xs)
  have n: "normalize_rule_name x = Some x" using Cons.prems(2) by (simp add: normalize_valid)
  have notin: "x \<notin> set rules" using Cons.prems(3) by auto
  have step: "read_loop (x # xs) rules (set rules) = read_loop xs (rules @ [x]) (set (rules @ [x]))"
    using n notin by simp
  have "set xs \<inter> set (rules @ [x]) = {}" using Cons.prems(1,3) by auto
  then have "read_loop xs (rules @ [x]) (set (rules @ [x])) = (rules @ [x]) @ xs"
    using Cons.IH[of "rules @ [x]"] Cons.prems(1,2) by simp
  with step show ?case by simp
qed

lemma check_rule_cases:
  obtains (diverges) "check_rule R rule token = None"
  | (fatal) e q where "check_rule R rule token = Some (Inl e, q)"
  | (decided) b q where "check_rule R rule token = Some (Inr b, q)"
proof (cases "check_rule R rule token")
  case None
  then show ?thesis using diverges by simp
next
  case (Some a)
  obtain r q where a: "a = (r, q)" by (cases a)
  show ?thesis using Some a fatal decided by (cases r) auto
qed

lemma sync_loop_decided:
  "sync_loop R token rules kept removed = Some (Inr (k, r), q) \<Longrightarrow> x \<in> set rules
     \<Longrightarrow> verdict R token x \<noteq> None"
proof (induction rules arbitrary: kept removed q)
  case Nil
  then show ?case by simp
next
  case (Cons rule rules)
  show ?case
  proof (cases rule: check_rule_cases[of R rule token])
    case diverges
    then show ?thesis using Cons.prems(1) by simp
  next
    case (fatal e q0)
    then show ?thesis using Cons.prems(1) by simp
  next
    case (decided b q0)
    from Cons.prems(1) decided obtain q1 where
      rest: "sync_loop R token rules (if b then kept @ [rule] else kept) (if b then removed else removed @ [rule]) = Some (Inr (k, r), q1)"
      by (auto simp: bind_eq_Some_conv)
    show ?thesis
    proof (cases "x = rule")
      case True
      then show ?thesis using decided by (simp add: verdict_def)
    next
      case False
      then have "x \<in> set rules" using Cons.prems(2) by simp
      from Cons.IH[OF rest this] show ?thesis .
    qed
  qed
qed

lemma sync_loop_total:
  "\<forall>x\<in>set rules. verdict R token x \<noteq> None \<Longrightarrow>
   sync_loop R token rules kept removed =
     Some (Inr (kept @ filter (eligible R token) rules,
                removed @ filter (\<lambda>x. \<not> eligible R token x) rules),
           concat (map (trace_of R token) rules))"
proof (induction rules arbitrary: kept removed)
  case Nil
  show ?case by simp
next
  case (Cons rule rules)
  show ?case
  proof (cases rule: check_rule_cases[of R rule token])
    case diverges
    then show ?thesis using Cons.prems by (simp add: verdict_def)
  next
    case (fatal e q0)
    then show ?thesis using Cons.prems by (simp add: verdict_def)
  next
    case (decided b q0)
    have el: "eligible R token rule = b" using decided by (simp add: eligible_def verdict_def)
    have tr: "trace_of R token rule = q0" using decided by (simp add: trace_of_def)
    have ih: "sync_loop R token rules (if b then kept @ [rule] else kept) (if b then removed else removed @ [rule]) =
       Some (Inr ((if b then kept @ [rule] else kept) @ filter (eligible R token) rules,
                (if b then removed else removed @ [rule]) @ filter (\<lambda>x. \<not> eligible R token x) rules),
           concat (map (trace_of R token) rules))"
      using Cons.IH Cons.prems by simp
    show ?thesis using decided ih el tr by (cases b) simp_all
  qed
qed

lemma sync_loop_result:
  assumes "sync_loop R token rules kept removed = Some (Inr (k, r), q)"
  shows "k = kept @ filter (eligible R token) rules"
    and "r = removed @ filter (\<lambda>x. \<not> eligible R token x) rules"
    and "q = concat (map (trace_of R token) rules)"
proof -
  have "\<forall>x\<in>set rules. verdict R token x \<noteq> None"
    using sync_loop_decided[OF assms] by blast
  from sync_loop_total[OF this, of kept removed] assms
  show "k = kept @ filter (eligible R token) rules"
    and "r = removed @ filter (\<lambda>x. \<not> eligible R token x) rules"
    and "q = concat (map (trace_of R token) rules)" by simp_all
qed

section \<open>URLs that \<open>Request\<close> accepts\<close>

lemma strip_keeps_prefix:
  assumes "p \<noteq> []" and "\<not> isspace (hd p)" and "\<not> isspace (last p)"
  shows "\<exists>r'. strip (p @ r) = p @ r'"
proof -
  have 1: "dropWhile isspace (p @ r) = p @ r"
    using assms(1,2) by (cases p) simp_all
  have 2: "dropWhile isspace (rev p) = rev p"
    using assms(1,3) by (cases "rev p") (simp_all add: last_rev[symmetric] hd_rev)
  show ?thesis
  proof (cases "\<forall>c\<in>set r. isspace c")
    case True
    then have "\<And>x. x \<in> set (rev r) \<Longrightarrow> isspace x" by simp
    then have "dropWhile isspace (rev r @ rev p) = rev p"
      using 2 by (simp only: dropWhile_append2)
    then show ?thesis by (simp add: strip_def 1)
  next
    case False
    then obtain x where "x \<in> set (rev r)" and "\<not> isspace x" by auto
    then have "dropWhile isspace (rev r @ rev p) = dropWhile isspace (rev r) @ rev p"
      by (rule dropWhile_append1)
    then show ?thesis by (simp add: strip_def 1)
  qed
qed

lemma splittag_keeps_prefix:
  assumes "35 \<notin> set p"
  shows "\<exists>r'. splittag (p @ r) = p @ r'"
proof (cases "35 \<in> set r")
  case True
  then have "dropWhile (\<lambda>c. c \<noteq> 35) (rev r @ rev p) = dropWhile (\<lambda>c. c \<noteq> 35) (rev r) @ rev p"
    by (simp add: dropWhile_append1)
  moreover have "dropWhile (\<lambda>c. c \<noteq> 35) (rev r) \<noteq> []" using True by simp
  ultimately have "rev (tl (dropWhile (\<lambda>c. c \<noteq> 35) (rev (p @ r)))) =
      p @ rev (tl (dropWhile (\<lambda>c. c \<noteq> 35) (rev r)))" by simp
  then show ?thesis using True by (simp add: splittag_def)
next
  case False
  then show ?thesis using assms by (simp add: splittag_def)
qed

lemma splittype_scheme:
  assumes "s \<noteq> []" and "\<forall>c\<in>set s. c \<noteq> 47 \<and> c \<noteq> 58"
  shows "splittype (s @ [58] @ r) = Some s"
proof -
  have "takeWhile (\<lambda>c. c \<noteq> 47 \<and> c \<noteq> 58) (s @ [58] @ r) = s"
    using assms(2) by (simp add: takeWhile_append2)
  moreover have "dropWhile (\<lambda>c. c \<noteq> 47 \<and> c \<noteq> 58) (s @ [58] @ r) = 58 # r"
    using assms(2) by (simp add: dropWhile_append2)
  ultimately show ?thesis using assms(1) by (simp add: splittype_def Let_def)
qed

lemma typed_scheme:
  assumes "4 \<le> length s" and "take 4 s \<noteq> str ''URL:''" and "hd s \<noteq> 60"
    and "\<forall>c\<in>set s. c \<noteq> 47 \<and> c \<noteq> 58 \<and> c \<noteq> 35 \<and> \<not> isspace c"
  shows "splittype (splittag (unwrap (s @ [58] @ r))) = Some s"
proof -
  have ne: "s \<noteq> []" using assms(1) by auto
  have hd: "\<not> isspace (hd (s @ [58]))" using ne assms(4) by (cases s) simp_all
  have la: "\<not> isspace (last (s @ [58]))" by (simp add: isspace_def)
  from strip_keeps_prefix[of "s @ [58]" r, OF _ hd la] obtain r1 where
    1: "strip (s @ [58] @ r) = s @ [58] @ r1" by auto
  have 2: "hd (s @ [58] @ r1) \<noteq> 60" using ne assms(3) by (cases s) simp_all
  have 3: "take 4 (s @ [58] @ r1) \<noteq> str ''URL:''" using assms(1,2) by simp
  have u: "unwrap (s @ [58] @ r) = s @ [58] @ r1"
    unfolding unwrap_def Let_def 1 using 2 3 by simp
  have "35 \<notin> set (s @ [58])" using assms(4) by auto
  from splittag_keeps_prefix[OF this, of r1] obtain r2 where
    t: "splittag (s @ [58] @ r1) = s @ [58] @ r2" by auto
  show ?thesis unfolding u t using splittype_scheme[OF ne, of r2] assms(4) by simp
qed

lemma typed_https: "splittype (splittag (unwrap (str ''https:'' @ r))) = Some (str ''https'')"
  using typed_scheme[of "str ''https''" r] by (simp add: str_def isspace_def)



lemma typed_repo_url: "splittype (splittag (unwrap (repo_url repo))) = Some (str ''https'')"
proof -
  have "repo_url repo = str ''https:'' @ str ''//api.github.com/repos/'' @ quote ORG @ str ''/'' @ quote repo"
    by (simp add: repo_url_def API_BASE_def str_def)
  then show ?thesis using typed_https by simp
qed

lemma typed_tags_url: "splittype (splittag (unwrap (tags_url repo))) = Some (str ''https'')"
proof -
  have "tags_url repo = str ''https:'' @ str ''//api.github.com/repos/'' @ quote ORG @ str ''/'' @ quote repo
      @ str ''/tags?per_page=100''"
    by (simp add: tags_url_def repo_url_def API_BASE_def str_def)
  then show ?thesis using typed_https by simp
qed

lemma request_json_typed:
  assumes "splittype (splittag (unwrap url)) \<noteq> None"
  shows "request_json R url token =
     (case R url token of
        Reply data hs \<Rightarrow> (Inr (data, map (\<lambda>(k, v). (lower k, v)) hs), [url])
      | HTTPError code body \<Rightarrow>
          (Inl (GitHubApiError code url (case body of None \<Rightarrow> [] | Some b \<Rightarrow> b)), [url])
      | Failed x \<Rightarrow> (Inl (Raised x), [url]))"
  using assms by (auto simp: request_json_def)

lemma request_json_untyped:
  assumes "splittype (splittag (unwrap url)) = None"
  shows "request_json R url token = (Inl (ValueError url), [url])"
  using assms by (simp add: request_json_def)

text \<open>A continuation pointer without a URL type is refused before anything is sent.\<close>

lemma relative_pointer_refused:
  "request_json R (str ''/repositories/1/tags?page=2'') token =
     (Inl (ValueError (str ''/repositories/1/tags?page=2'')), [str ''/repositories/1/tags?page=2''])"
  by (simp add: request_json_def unwrap_def splittag_def splittype_def strip_def isspace_def str_def)

lemma request_json_trace: "snd (request_json R url token) = [url]"
  by (simp add: request_json_def split: option.splits reply.splits)

lemma request_json_repo:
  "request_json R (repo_url repo) token =
     (case R (repo_url repo) token of
        Reply data hs \<Rightarrow> (Inr (data, map (\<lambda>(k, v). (lower k, v)) hs), [repo_url repo])
      | HTTPError code body \<Rightarrow>
          (Inl (GitHubApiError code (repo_url repo) (case body of None \<Rightarrow> [] | Some b \<Rightarrow> b)), [repo_url repo])
      | Failed x \<Rightarrow> (Inl (Raised x), [repo_url repo]))"
  by (rule request_json_typed) (simp add: typed_repo_url)

lemma request_json_tags:
  "request_json R (tags_url repo) token =
     (case R (tags_url repo) token of
        Reply data hs \<Rightarrow> (Inr (data, map (\<lambda>(k, v). (lower k, v)) hs), [tags_url repo])
      | HTTPError code body \<Rightarrow>
          (Inl (GitHubApiError code (tags_url repo) (case body of None \<Rightarrow> [] | Some b \<Rightarrow> b)), [tags_url repo])
      | Failed x \<Rightarrow> (Inl (Raised x), [tags_url repo]))"
  by (rule request_json_typed) (simp add: typed_tags_url)

section \<open>The sample service, evaluated\<close>

lemmas url_defs = repo_url_def tags_url_def quote_def quote_byte_def utf8_def always_safe_def
  hexdigit_def API_BASE_def ORG_def str_def

lemma demo_url_r1: "repo_url (str ''r1'') = str ''https://api.github.com/repos/CursorCult/r1''"
  by (simp add: url_defs)

lemma demo_tags_r1: "tags_url (str ''r1'') = str ''https://api.github.com/repos/CursorCult/r1/tags?per_page=100''"
  by (simp add: url_defs)

lemma demo_url_r2: "repo_url (str ''r2'') = str ''https://api.github.com/repos/CursorCult/r2''"
  by (simp add: url_defs)

lemma demo_url_r3: "repo_url (str ''r3'') = str ''https://api.github.com/repos/CursorCult/r3''"
  by (simp add: url_defs)

lemma demo_exists_r1: "repo_exists demo_remote (str ''r1'') (str ''t'') = (Inr True, [repo_url (str ''r1'')])"
  unfolding repo_exists_def request_json_repo unfolding demo_url_r1
  by (simp add: demo_remote_def dict_get_def str_def)

lemma demo_exists_r2: "repo_exists demo_remote (str ''r2'') (str ''t'') = (Inr False, [repo_url (str ''r2'')])"
  unfolding repo_exists_def request_json_repo unfolding demo_url_r2
  by (simp add: demo_remote_def dict_get_def str_def)

lemma demo_exists_r3: "repo_exists demo_remote (str ''r3'') (str ''t'') = (Inr False, [repo_url (str ''r3'')])"
  unfolding repo_exists_def request_json_repo unfolding demo_url_r3
  by (simp add: demo_remote_def dict_get_def str_def)

lemma typed_p2: "splittype (splittag (unwrap (str ''https://api.github.com/p2''))) \<noteq> None"
  using typed_https[of "str ''//api.github.com/p2''"] by (simp add: str_def)

lemma demo_tags: "repo_has_required_tag demo_remote (str ''r1'') (str ''t'') =
    Some (Inr True, [tags_url (str ''r1''), str ''https://api.github.com/p2''])"
proof -
  have p2: "paginate demo_remote tag_body (Some (str ''https://api.github.com/p2'')) (str ''t'') =
      Some (Inr (Some True), [str ''https://api.github.com/p2''])"
    apply (subst paginate.simps)
    apply (simp only: option.case)
    apply (unfold request_json_typed[OF typed_p2])
    by (simp add: demo_remote_def tag_body_def dict_get_def str_def strip_def
          isspace_def TAG_REQUIRED_def)
  have p1: "paginate demo_remote tag_body (Some (tags_url (str ''r1''))) (str ''t'') =
      Option.bind (paginate demo_remote tag_body (Some (str ''https://api.github.com/p2'')) (str ''t''))
        (\<lambda>(r, q'). Some (r, [tags_url (str ''r1'')] @ q'))"
    apply (subst paginate.simps)
    apply (simp only: option.case)
    apply (unfold request_json_tags)
    apply (unfold demo_tags_r1)
    by (simp add: demo_remote_def tag_body_def dict_get_def str_def strip_def
          isspace_def TAG_REQUIRED_def next_link_def lower_def lower_cp_def)
  show ?thesis unfolding repo_has_required_tag_def p1 p2 by simp
qed

lemma demo_r1: "check_rule demo_remote (str ''r1'') (str ''t'') =
    Some (Inr True, [repo_url (str ''r1''), tags_url (str ''r1''), str ''https://api.github.com/p2''])"
  unfolding check_rule_def demo_exists_r1 demo_tags by simp

lemma demo_r2: "check_rule demo_remote (str ''r2'') (str ''t'') = Some (Inr False, [repo_url (str ''r2'')])"
  unfolding check_rule_def demo_exists_r2 by simp

lemma demo_r3: "check_rule demo_remote (str ''r3'') (str ''t'') = Some (Inr False, [repo_url (str ''r3'')])"
  unfolding check_rule_def demo_exists_r3 by simp

lemma demo_loop:
  "sync_loop demo_remote (str ''t'') [str ''r1'', str ''r2'', str ''r3''] [] [] =
     Some (Inr ([str ''r1''], [str ''r2'', str ''r3'']),
           [repo_url (str ''r1''), tags_url (str ''r1''), str ''https://api.github.com/p2'',
            repo_url (str ''r2''), repo_url (str ''r3'')])"
  by (simp add: demo_r1 demo_r2 demo_r3)

section \<open>Order and partition\<close>

text \<open>
  Claim C8. When the loop of the reconciler ends, \<open>kept\<close> is the list of the eligible
  entries and \<open>removed\<close> the list of the others, each in the order of the normalized
  input, which is the order in which the loop meets them; both are subsequences of the
  input.
\<close>

theorem order_preserved:
  assumes "sync_loop R token rules [] [] = Some (Inr (kept, removed), q)"
  shows "kept = filter (eligible R token) rules
       \<and> removed = filter (\<lambda>x. \<not> eligible R token x) rules
       \<and> subseq kept rules \<and> subseq removed rules"
  using sync_loop_result(1,2)[OF assms] by simp

theorem order_preserved_witness:
  "[str ''r1''] = filter (eligible demo_remote (str ''t'')) [str ''r1'', str ''r2'', str ''r3'']
   \<and> [str ''r2'', str ''r3''] = filter (\<lambda>x. \<not> eligible demo_remote (str ''t'') x) [str ''r1'', str ''r2'', str ''r3'']
   \<and> subseq [str ''r1''] [str ''r1'', str ''r2'', str ''r3'']
   \<and> subseq [str ''r2'', str ''r3''] [str ''r1'', str ''r2'', str ''r3'']"
  using order_preserved[OF demo_loop] .

text \<open>
  Claim C10. When the loop of the reconciler ends without a fatal error, \<open>kept\<close> and
  \<open>removed\<close> partition the normalized entries: together they hold exactly the normalized
  entries, they share none, and neither repeats an entry.
\<close>

theorem kept_removed_partition:
  assumes "sync_loop R token (read_loop raw_lines [] {}) [] [] = Some (Inr (kept, removed), q)"
  shows "set kept \<union> set removed = set (read_loop raw_lines [] {})
       \<and> set kept \<inter> set removed = {}
       \<and> distinct kept \<and> distinct removed
       \<and> length kept + length removed = length (read_loop raw_lines [] {})"
proof -
  let ?rules = "read_loop raw_lines [] {}"
  have d: "distinct ?rules" using distinct_read_loop[of "[]" raw_lines] by simp
  have k: "kept = filter (eligible R token) ?rules"
    and r: "removed = filter (\<lambda>x. \<not> eligible R token x) ?rules"
    using sync_loop_result(1,2)[OF assms] by simp_all
  have "set kept \<union> set removed = set ?rules" unfolding k r by auto
  moreover have "set kept \<inter> set removed = {}" unfolding k r by auto
  moreover have "distinct kept" "distinct removed" unfolding k r using d by simp_all
  moreover have "length kept + length removed = length ?rules"
    unfolding k r by (rule sum_length_filter_compl)
  ultimately show ?thesis by simp
qed

lemma demo_read: "read_loop (map str [''r1'', ''r2'', ''r1'', ''# x'', ''r3'']) [] {} = [str ''r1'', str ''r2'', str ''r3'']"
  by (simp add: str_def strip_def isspace_def startswith_def normalize_rule_name_def)

theorem kept_removed_partition_witness:
  "set [str ''r1''] \<union> set [str ''r2'', str ''r3''] = set [str ''r1'', str ''r2'', str ''r3'']
   \<and> set [str ''r1''] \<inter> set [str ''r2'', str ''r3''] = {}
   \<and> distinct [str ''r1''] \<and> distinct [str ''r2'', str ''r3'']
   \<and> length [str ''r1''] + length [str ''r2'', str ''r3''] = length [str ''r1'', str ''r2'', str ''r3'']"
  using kept_removed_partition[of demo_remote "str ''t''" "map str [''r1'', ''r2'', ''r1'', ''# x'', ''r3'']"
    "[str ''r1'']" "[str ''r2'', str ''r3'']"] demo_loop
  unfolding demo_read by blast

section \<open>One reconciliation\<close>

lemma read_after_requests [simp]: "read_text (record_requests w q) path = read_text w path"
  by (simp add: read_text_def record_requests_def)

lemma sync_ruleset_eval:
  assumes "read_text w path = Inr original"
    and "sync_loop R token (read_loop (splitlines original) [] {}) [] [] = Some (Inr (kept, removed), q)"
  shows "sync_ruleset R path token check_only w =
           Some (Inr (serialized kept \<noteq> original, removed),
                 if serialized kept \<noteq> original \<and> \<not> check_only
                 then write_text (record_requests w q) path (serialized kept)
                 else record_requests w q)"
proof -
  have "files (record_requests w q) = files w" by (simp add: record_requests_def)
  then show ?thesis
    using assms by (simp add: sync_ruleset_def read_ruleset_file_def serialized_eq Let_def)
qed

lemma sync_ruleset_InrD:
  assumes "sync_ruleset R path token check_only w = Some (Inr (changed, removed), w1)"
  obtains original kept q where "read_text w path = Inr original"
    and "sync_loop R token (read_loop (splitlines original) [] {}) [] [] = Some (Inr (kept, removed), q)"
    and "changed = (serialized kept \<noteq> original)"
    and "w1 = (if changed \<and> \<not> check_only
               then write_text (record_requests w q) path (serialized kept)
               else record_requests w q)"
proof -
  from assms obtain original where o: "read_text w path = Inr original"
    by (cases "read_text w path") (simp_all add: sync_ruleset_def read_ruleset_file_def)
  let ?rules = "read_loop (splitlines original) [] {}"
  from assms o obtain res q where l: "sync_loop R token ?rules [] [] = Some (res, q)"
    by (cases "sync_loop R token ?rules [] []")
       (auto simp: sync_ruleset_def read_ruleset_file_def)
  from assms o l obtain kept removed' where res: "res = Inr (kept, removed')"
    by (cases res) (auto simp: sync_ruleset_def read_ruleset_file_def)
  from sync_ruleset_eval[OF o l[unfolded res], of check_only] assms
  have "removed' = removed" "changed = (serialized kept \<noteq> original)"
    "w1 = (if changed \<and> \<not> check_only
               then write_text (record_requests w q) path (serialized kept)
               else record_requests w q)"
    by (auto split: if_splits)
  with that o l res show ?thesis by blast
qed

lemma universal_newlines_id: "13 \<notin> set s \<Longrightarrow> universal_newlines s = s"
  by (induction s rule: universal_newlines.induct) auto

lemma sync_ruleset_content:
  assumes "files w path = Some content"
    and "sync_loop R token (read_loop (splitlines (universal_newlines content)) [] {}) [] []
           = Some (Inr (kept, removed), q)"
  shows "sync_ruleset R path token check_only w =
           Some (Inr (serialized kept \<noteq> universal_newlines content, removed),
                 if serialized kept \<noteq> universal_newlines content \<and> \<not> check_only
                 then write_text (record_requests w q) path (serialized kept)
                 else record_requests w q)"
proof -
  have "read_text w path = Inr (universal_newlines content)"
    using assms(1) by (simp add: read_text_def)
  from sync_ruleset_eval[OF this assms(2)] show ?thesis .
qed

lemma demo_content: "files demo_world (str ''rulesets/a.txt'') = Some (str ''r1\<newline>r2\<newline>'')"
  by (simp add: demo_world_def)

lemma demo_content_read: "universal_newlines (str ''r1\<newline>r2\<newline>'') = str ''r1\<newline>r2\<newline>''"
  by (simp add: str_def)

lemma demo_file: "read_text demo_world (str ''rulesets/a.txt'') = Inr (str ''r1\<newline>r2\<newline>'')"
  by (simp add: read_text_def demo_content demo_content_read)

lemma demo_rules: "read_loop (splitlines (str ''r1\<newline>r2\<newline>'')) [] {} = [str ''r1'', str ''r2'']"
  by (simp add: splitlines_def is_linebreak_def str_def strip_def isspace_def startswith_def
        normalize_rule_name_def)

lemma demo_loop2:
  "sync_loop demo_remote (str ''t'') (read_loop (splitlines (str ''r1\<newline>r2\<newline>'')) [] {}) [] [] =
     Some (Inr ([str ''r1''], [str ''r2'']),
           [repo_url (str ''r1''), tags_url (str ''r1''), str ''https://api.github.com/p2'',
            repo_url (str ''r2'')])"
  unfolding demo_rules by (simp add: demo_r1 demo_r2)

lemma demo_serialized: "serialized [str ''r1''] = str ''r1\<newline>''"
  by (simp add: serialized_def str_def)

lemma crlf_read: "universal_newlines (str ''r1'' @ [13, 10]) = str ''r1\<newline>''"
  by (simp add: str_def)

lemma crlf_rules: "read_loop (splitlines (str ''r1\<newline>'')) [] {} = [str ''r1'']"
  by (simp add: splitlines_def is_linebreak_def str_def strip_def isspace_def startswith_def
        normalize_rule_name_def)

lemma crlf_loop:
  "sync_loop demo_remote (str ''t'')
     (read_loop (splitlines (universal_newlines (str ''r1'' @ [13, 10]))) [] {}) [] [] =
     Some (Inr ([str ''r1''], []),
           [repo_url (str ''r1''), tags_url (str ''r1''), str ''https://api.github.com/p2''])"
  unfolding crlf_read crlf_rules by (simp add: demo_r1)

text \<open>
  Claim C5, as stated, fails on a file that holds a carriage return: the text compared
  with the serialization is the text read from the file, in which CR LF has become LF.
  For the file \<open>r1 CR LF\<close> and an eligible \<open>r1\<close>, \<open>kept\<close> is \<open>[r1]\<close>, its serialization
  \<open>r1 LF\<close> differs from the content of the file, and yet \<open>changed\<close> is \<open>False\<close>.
\<close>

theorem crlf_counterexample:
  "files crlf_world (str ''rulesets/a.txt'') = Some (str ''r1'' @ [13, 10])
   \<and> sync_loop demo_remote (str ''t'')
        (read_loop (splitlines (universal_newlines (str ''r1'' @ [13, 10]))) [] {}) [] [] =
        Some (Inr ([str ''r1''], []),
              [repo_url (str ''r1''), tags_url (str ''r1''), str ''https://api.github.com/p2''])
   \<and> serialized [str ''r1''] \<noteq> str ''r1'' @ [13, 10]
   \<and> sync_ruleset demo_remote (str ''rulesets/a.txt'') (str ''t'') False crlf_world =
        Some (Inr (False, []),
              record_requests crlf_world
                [repo_url (str ''r1''), tags_url (str ''r1''), str ''https://api.github.com/p2''])"
proof -
  have f: "files crlf_world (str ''rulesets/a.txt'') = Some (str ''r1'' @ [13, 10])"
    by (simp add: crlf_world_def)
  have ne: "serialized [str ''r1''] \<noteq> str ''r1'' @ [13, 10]"
    by (simp add: serialized_def str_def)
  have "sync_ruleset demo_remote (str ''rulesets/a.txt'') (str ''t'') False crlf_world =
        Some (Inr (False, []),
              record_requests crlf_world
                [repo_url (str ''r1''), tags_url (str ''r1''), str ''https://api.github.com/p2''])"
    using sync_ruleset_content[OF f crlf_loop, of False] by (simp add: crlf_read demo_serialized)
  then show ?thesis using f ne crlf_loop by simp
qed

text \<open>
  Claim C5, amended. The text computed from \<open>kept\<close> is every entry followed by one
  newline: the entries joined by single newlines, with one trailing newline exactly when
  \<open>kept\<close> is not empty, and the empty text for no entry. \<open>changed\<close> says that this text
  differs from the content of the file as read in text mode, that is with CR LF and CR
  read as LF (for a content without CR: from the content itself). The text is written
  to the file exactly when \<open>changed\<close> holds and check-only mode is off; otherwise the files
  stay as they are.
\<close>

theorem serialize_compare_write:
  assumes "files w path = Some content"
    and "sync_loop R token (read_loop (splitlines (universal_newlines content)) [] {}) [] []
           = Some (Inr (kept, removed), q)"
  shows "\<exists>w'. sync_ruleset R path token check_only w
                 = Some (Inr (serialized kept \<noteq> universal_newlines content, removed), w')
            \<and> files w' = (if serialized kept \<noteq> universal_newlines content \<and> \<not> check_only
                          then (files w)(path \<mapsto> serialized kept) else files w)
            \<and> serialized kept = join (str ''\<newline>'') kept @ (if kept \<noteq> [] then str ''\<newline>'' else [])
            \<and> (serialized kept = [] \<longleftrightarrow> kept = [])
            \<and> write_ruleset_file w' path kept = write_text w' path (serialized kept)
            \<and> (13 \<notin> set content \<longrightarrow> universal_newlines content = content)"
  using sync_ruleset_content[OF assms, of check_only]
  by (simp add: serialized_eq serialized_empty write_ruleset_file_def write_text_def
        record_requests_def universal_newlines_id)

theorem serialize_compare_write_witness:
  "\<exists>w'. sync_ruleset demo_remote (str ''rulesets/a.txt'') (str ''t'') False demo_world
            = Some (Inr (True, [str ''r2'']), w')
       \<and> files w' (str ''rulesets/a.txt'') = Some (str ''r1\<newline>'')"
proof -
  have ne: "serialized [str ''r1''] \<noteq> str ''r1\<newline>r2\<newline>''"
    by (simp add: serialized_def str_def)
  have l: "sync_loop demo_remote (str ''t'')
      (read_loop (splitlines (universal_newlines (str ''r1\<newline>r2\<newline>''))) [] {}) [] [] =
     Some (Inr ([str ''r1''], [str ''r2'']),
           [repo_url (str ''r1''), tags_url (str ''r1''), str ''https://api.github.com/p2'',
            repo_url (str ''r2'')])"
    unfolding demo_content_read by (rule demo_loop2)
  from serialize_compare_write[OF demo_content l, of False]
  obtain w' where "sync_ruleset demo_remote (str ''rulesets/a.txt'') (str ''t'') False demo_world
            = Some (Inr (serialized [str ''r1''] \<noteq> universal_newlines (str ''r1\<newline>r2\<newline>''), [str ''r2'']), w')"
    and "files w' = (if serialized [str ''r1''] \<noteq> universal_newlines (str ''r1\<newline>r2\<newline>'') \<and> \<not> False
           then (files demo_world)(str ''rulesets/a.txt'' \<mapsto> serialized [str ''r1'']) else files demo_world)"
    by blast
  then show ?thesis using ne by (simp add: demo_serialized demo_content_read)
qed

section \<open>Idempotence\<close>

lemma kept_fixed_point:
  assumes "sync_loop R token (read_loop raw_lines [] {}) [] [] = Some (Inr (kept, removed), q)"
  shows "read_loop (splitlines (serialized kept)) [] {} = kept"
    and "sync_loop R token kept [] [] = Some (Inr (kept, []), concat (map (trace_of R token) kept))"
    and "universal_newlines (serialized kept) = serialized kept"
proof -
  let ?rules = "read_loop raw_lines [] {}"
  have k: "kept = filter (eligible R token) ?rules" using sync_loop_result(1)[OF assms] by simp
  have sub: "set kept \<subseteq> set ?rules" unfolding k by auto
  have valid: "\<forall>e\<in>set kept. valid_entry e" using sub read_loop_valid by blast
  have d: "distinct kept" unfolding k using distinct_read_loop[of "[]" raw_lines] by simp
  have "splitlines (serialized kept) = kept"
    using valid valid_no_linebreak by (intro splitlines_serialized) blast
  moreover have "read_loop kept [] {} = kept"
    using read_loop_fixed[of kept "[]"] d valid by simp
  ultimately show "read_loop (splitlines (serialized kept)) [] {} = kept" by simp
  have dec: "\<forall>x\<in>set kept. verdict R token x \<noteq> None"
    using sync_loop_decided[OF assms] sub by blast
  have all: "\<forall>x\<in>set kept. eligible R token x" unfolding k by simp
  have f1: "filter (eligible R token) kept = kept" using all by (simp add: filter_id_conv)
  have f2: "filter (\<lambda>x. \<not> eligible R token x) kept = []" using all by (simp add: filter_empty_conv)
  show "sync_loop R token kept [] [] = Some (Inr (kept, []), concat (map (trace_of R token) kept))"
    using sync_loop_total[OF dec, of "[]" "[]"] f1 f2 by simp
  have "isspace 13" by (simp add: isspace_def)
  then have "\<forall>e\<in>set kept. 13 \<notin> set e" using valid by (auto simp: valid_entry_def)
  then have "13 \<notin> set (serialized kept)" by (auto simp: serialized_def)
  then show "universal_newlines (serialized kept) = serialized kept" by (rule universal_newlines_id)
qed

text \<open>
  Claim C6. After a reconciliation of a file in apply mode has returned, a second
  reconciliation of the same file against the same service (in either mode) returns
  \<open>changed = False\<close> with nothing removed, and leaves the files as the first one left them.
\<close>

theorem reconcile_idempotent:
  assumes "sync_ruleset R path token False w = Some (Inr (changed, removed), w1)"
  shows "\<exists>w2. sync_ruleset R path token check_only w1 = Some (Inr (False, []), w2)
            \<and> files w2 = files w1"
proof -
  from assms obtain original kept q where o: "read_text w path = Inr original"
    and l: "sync_loop R token (read_loop (splitlines original) [] {}) [] [] = Some (Inr (kept, removed), q)"
    and c: "changed = (serialized kept \<noteq> original)"
    and w1: "w1 = (if changed \<and> \<not> False
               then write_text (record_requests w q) path (serialized kept)
               else record_requests w q)"
    by (rule sync_ruleset_InrD)
  have f1: "read_text w1 path = Inr (serialized kept)"
  proof (cases changed)
    case True
    then have "files w1 path = Some (serialized kept)" using w1 by (simp add: write_text_def)
    then show ?thesis using kept_fixed_point(3)[OF l] by (simp add: read_text_def)
  next
    case False
    then show ?thesis using o c w1 by simp
  qed
  have l2: "sync_loop R token (read_loop (splitlines (serialized kept)) [] {}) [] [] =
      Some (Inr (kept, []), concat (map (trace_of R token) kept))"
    using kept_fixed_point(1,2)[OF l] by simp
  have "sync_ruleset R path token check_only w1 =
      Some (Inr (False, []), record_requests w1 (concat (map (trace_of R token) kept)))"
    using sync_ruleset_eval[OF f1 l2, of check_only] by simp
  moreover have "files (record_requests w1 (concat (map (trace_of R token) kept))) = files w1"
    by (simp add: record_requests_def)
  ultimately show ?thesis by blast
qed

lemma demo_first_run:
  "sync_ruleset demo_remote (str ''rulesets/a.txt'') (str ''t'') False demo_world =
     Some (Inr (True, [str ''r2'']),
           write_text (record_requests demo_world
              [repo_url (str ''r1''), tags_url (str ''r1''), str ''https://api.github.com/p2'',
               repo_url (str ''r2'')]) (str ''rulesets/a.txt'') (str ''r1\<newline>''))"
proof -
  have ne: "serialized [str ''r1''] \<noteq> str ''r1\<newline>r2\<newline>''"
    by (simp add: serialized_def str_def)
  show ?thesis
    using sync_ruleset_eval[OF demo_file demo_loop2, of False] ne by (simp add: demo_serialized)
qed

theorem reconcile_idempotent_witness:
  "\<exists>w2. sync_ruleset demo_remote (str ''rulesets/a.txt'') (str ''t'') False
           (write_text (record_requests demo_world
              [repo_url (str ''r1''), tags_url (str ''r1''), str ''https://api.github.com/p2'',
               repo_url (str ''r2'')]) (str ''rulesets/a.txt'') (str ''r1\<newline>''))
         = Some (Inr (False, []), w2)
       \<and> files w2 = files (write_text (record_requests demo_world
              [repo_url (str ''r1''), tags_url (str ''r1''), str ''https://api.github.com/p2'',
               repo_url (str ''r2'')]) (str ''rulesets/a.txt'') (str ''r1\<newline>''))"
  using reconcile_idempotent[OF demo_first_run, of False] .

section \<open>The validator\<close>

lemma tags_url_neq: "tags_url repo \<noteq> repo_url repo"
  by (simp add: tags_url_def str_def)

lemma tags_url_nonempty: "tags_url repo \<noteq> []"
  by (simp add: tags_url_def str_def)

lemma repo_exists_eq:
  "repo_exists R repo token =
     (case R (repo_url repo) token of
        Reply data hs \<Rightarrow> (Inr (found_active R token repo), [repo_url repo])
      | HTTPError code body \<Rightarrow>
          (if code = 404 then Inr False
           else Inl (GitHubApiError code (repo_url repo) (case body of None \<Rightarrow> [] | Some b \<Rightarrow> b)),
           [repo_url repo])
      | Failed x \<Rightarrow> (Inl (Raised x), [repo_url repo]))"
  by (simp add: repo_exists_def request_json_repo found_active_def split: reply.splits json.splits)

lemma repo_exists_trace: "snd (repo_exists R repo token) = [repo_url repo]"
  by (simp add: repo_exists_eq split: reply.splits)

lemma repo_exists_True: "fst (repo_exists R repo token) = Inr True \<longleftrightarrow> found_active R token repo"
  by (auto simp: repo_exists_eq found_active_def split: reply.splits json.splits)

lemma check_rule_active:
  "found_active R token rule \<Longrightarrow>
   check_rule R rule token =
     Option.bind (repo_has_required_tag R rule token) (\<lambda>(r, q'). Some (r, [repo_url rule] @ q'))"
proof -
  assume a: "found_active R token rule"
  have "repo_exists R rule token = (Inr True, [repo_url rule])"
    using repo_exists_True[of R rule token] repo_exists_trace[of R rule token] a
    by (cases "repo_exists R rule token") simp
  then show ?thesis by (simp add: check_rule_def)
qed

lemma check_rule_inactive:
  "\<not> found_active R token rule \<Longrightarrow>
   check_rule R rule token = Some (repo_exists R rule token) \<and> fst (repo_exists R rule token) \<noteq> Inr True
     \<and> snd (repo_exists R rule token) = [repo_url rule]"
proof -
  assume a: "\<not> found_active R token rule"
  obtain r q where rq: "repo_exists R rule token = (r, q)" by (cases "repo_exists R rule token")
  have ne: "r \<noteq> Inr True" using repo_exists_True[of R rule token] a rq by simp
  have "check_rule R rule token = Some (r, q)"
  proof (cases r)
    case (Inl e)
    then show ?thesis using rq by (simp add: check_rule_def)
  next
    case (Inr b)
    then have "b = False" using ne by simp
    then show ?thesis using rq Inr by (simp add: check_rule_def)
  qed
  then show ?thesis using rq ne repo_exists_trace[of R rule token] by simp
qed

text \<open>
  Claim C2. A rule is eligible exactly when the metadata lookup finds the repository
  neither archived nor a fork and the tag listing holds the required tag. When the lookup
  does not find that, the verdict comes from the lookup alone: the one request made is the
  metadata request, and the tag listing is not requested.
\<close>

theorem eligibility_short_circuit:
  "(eligible R token rule \<longleftrightarrow>
      found_active R token rule \<and> (\<exists>q. repo_has_required_tag R rule token = Some (Inr True, q)))
   \<and> (found_active R token rule \<longrightarrow>
        check_rule R rule token =
          Option.bind (repo_has_required_tag R rule token) (\<lambda>(r, q'). Some (r, [repo_url rule] @ q')))
   \<and> (\<not> found_active R token rule \<longrightarrow>
        (\<exists>r. check_rule R rule token = Some (r, [repo_url rule]) \<and> r \<noteq> Inr True)
        \<and> tags_url rule \<notin> set [repo_url rule])"
proof -
  have inactive: "\<not> found_active R token rule \<Longrightarrow>
      (\<exists>r. check_rule R rule token = Some (r, [repo_url rule]) \<and> r \<noteq> Inr True)"
    using check_rule_inactive[of R token rule]
    by (cases "repo_exists R rule token") auto
  have iff: "eligible R token rule \<longleftrightarrow>
      found_active R token rule \<and> (\<exists>q. repo_has_required_tag R rule token = Some (Inr True, q))"
  proof (cases "found_active R token rule")
    case True
    show ?thesis
      unfolding eligible_def verdict_def check_rule_active[OF True] using True
      by (cases "repo_has_required_tag R rule token") (auto split: sum.splits)
  next
    case False
    from inactive[OF False] obtain r where "check_rule R rule token = Some (r, [repo_url rule])" "r \<noteq> Inr True"
      by blast
    then have "\<not> eligible R token rule"
      by (cases r) (auto simp: eligible_def verdict_def)
    with False show ?thesis by simp
  qed
  show ?thesis using iff check_rule_active inactive tags_url_neq by simp
qed

text \<open>
  Claim C3. When the metadata lookup of a rule is answered with status 404,
  \<open>repo_exists\<close> returns \<open>False\<close> and no error, the rule is appended to \<open>removed\<close>, and the
  loop goes on with the next rule.
\<close>

theorem not_found_is_ineligible:
  assumes "R (repo_url rule) token = HTTPError 404 body"
  shows "repo_exists R rule token = (Inr False, [repo_url rule])
       \<and> check_rule R rule token = Some (Inr False, [repo_url rule])
       \<and> sync_loop R token (rule # rules) kept removed =
           Option.bind (sync_loop R token rules kept (removed @ [rule]))
             (\<lambda>(r, q'). Some (r, [repo_url rule] @ q'))"
proof -
  have e: "repo_exists R rule token = (Inr False, [repo_url rule])"
    using assms by (simp add: repo_exists_eq)
  then have c: "check_rule R rule token = Some (Inr False, [repo_url rule])"
    by (simp add: check_rule_def)
  show ?thesis using e c by simp
qed


lemma demo_active_r1: "found_active demo_remote (str ''t'') (str ''r1'')"
  unfolding found_active_def demo_url_r1 by (simp add: demo_remote_def dict_get_def str_def)

lemma demo_inactive_r3: "\<not> found_active demo_remote (str ''t'') (str ''r3'')"
  unfolding found_active_def demo_url_r3 by (simp add: demo_remote_def dict_get_def str_def)

theorem eligibility_short_circuit_witness:
  "eligible demo_remote (str ''t'') (str ''r1'')
   \<and> \<not> eligible demo_remote (str ''t'') (str ''r3'')
   \<and> (\<exists>r. check_rule demo_remote (str ''r3'') (str ''t'') = Some (r, [repo_url (str ''r3'')]) \<and> r \<noteq> Inr True)"
  using eligibility_short_circuit[of demo_remote "str ''t''" "str ''r1''"]
    eligibility_short_circuit[of demo_remote "str ''t''" "str ''r3''"]
    demo_active_r1 demo_inactive_r3 demo_tags
  by blast

lemma demo_not_found_r2: "demo_remote (repo_url (str ''r2'')) (str ''t'') = HTTPError 404 None"
  unfolding demo_url_r2 by (simp add: demo_remote_def str_def)

theorem not_found_is_ineligible_witness:
  "repo_exists demo_remote (str ''r2'') (str ''t'') = (Inr False, [repo_url (str ''r2'')])
   \<and> check_rule demo_remote (str ''r2'') (str ''t'') = Some (Inr False, [repo_url (str ''r2'')])
   \<and> sync_loop demo_remote (str ''t'') [str ''r2''] [] [] = Some (Inr ([], [str ''r2'']), [repo_url (str ''r2'')])"
  using not_found_is_ineligible[of demo_remote "str ''r2''" "str ''t''" None "[]" "[]" "[]"]
    demo_not_found_r2 by simp

section \<open>Pagination\<close>

lemma search_angle_nonempty: "search_angle cs = Some g \<Longrightarrow> g \<noteq> []"
  by (induction cs) (auto split: if_splits)

lemma find_next_nonempty: "find_next ps = Some g \<Longrightarrow> g \<noteq> []"
proof (induction ps)
  case Nil
  then show ?case by simp
next
  case (Cons p ps)
  then show ?case
    using search_angle_nonempty[of "strip p" g]
    by (auto simp: Let_def split: if_splits)
qed

lemma tag_page_request:
  "tag_page R token u = Some (items, n) \<longleftrightarrow>
     (\<exists>headers. request_json R u token = (Inr (JList items, headers), [u]) \<and> n = next_link headers)"
proof -
  obtain r q where rq: "request_json R u token = (r, q)" by (cases "request_json R u token")
  have q: "q = [u]" using request_json_trace[of R u token] rq by simp
  show ?thesis
    unfolding tag_page_def rq q by (auto split: sum.splits json.splits)
qed

lemma page_next_nonempty:
  assumes "page_next R token u = Some v"
  shows "v \<noteq> []"
proof -
  from assms obtain items where "tag_page R token u = Some (items, Some v)"
    by (auto simp: page_next_def split: option.splits)
  then obtain hs where "next_link hs = Some v"
    unfolding tag_page_request by auto
  then obtain ps where "find_next ps = Some v"
    unfolding next_link_def Let_def by blast
  then show ?thesis by (rule find_next_nonempty)
qed

lemma tag_body_object:
  "is_object item \<Longrightarrow> tag_body item = (if has_marker item then Inr (Return True) else Inr Continue)"
  by (cases item) (auto simp: is_object_def tag_body_def has_marker_def split: option.splits json.splits)

lemma for_each_tags:
  "list_all is_object items \<Longrightarrow>
   for_each tag_body items = (if list_ex has_marker items then Inr (Return True) else Inr Continue)"
  by (induction items) (simp_all add: tag_body_object)


lemma paginate_page:
  assumes "u \<noteq> []" and "tag_page R token u = Some (items, n)"
  shows "paginate R body (Some u) token =
     (case for_each body items of
        Inl e \<Rightarrow> Some (Inl e, [u])
      | Inr (Return r) \<Rightarrow> Some (Inr (Some r), [u])
      | Inr Continue \<Rightarrow> Option.bind (paginate R body n token) (\<lambda>(r, q'). Some (r, [u] @ q')))"
proof -
  from assms(2) obtain headers where r: "request_json R u token = (Inr (JList items, headers), [u])"
    and n: "n = next_link headers"
    unfolding tag_page_request by auto
  show ?thesis
    unfolding n by (subst paginate.simps) (simp add: assms(1) r)
qed

lemma paginate_tag_page:
  assumes "u \<noteq> []" and "well_formed_page R token u"
  shows "paginate R tag_body (Some u) token =
     (if marker_on R token u then Some (Inr (Some True), [u])
      else Option.bind (paginate R tag_body (page_next R token u) token) (\<lambda>(r, q'). Some (r, [u] @ q')))"
proof -
  from assms(2) obtain items n where p: "tag_page R token u = Some (items, n)"
    and o: "list_all is_object items"
    by (auto simp: well_formed_page_def split: option.splits)
  show ?thesis
    unfolding paginate_page[OF assms(1) p] for_each_tags[OF o]
    by (simp add: marker_on_def page_next_def p)
qed

subsection \<open>The \<open>Link\<close> header\<close>




























section \<open>Check-only mode\<close>




lemma sync_ruleset_fatal:
  "read_text w path = Inr original
     \<Longrightarrow> sync_loop R token (read_loop (splitlines original) [] {}) [] [] = Some (Inl e, q)
     \<Longrightarrow> sync_ruleset R path token check_only w = Some (Inl e, record_requests w q)"
  by (simp add: sync_ruleset_def read_ruleset_file_def)
















section \<open>Remote failures\<close>


lemma paginate_bad_page:
  assumes "u \<noteq> []" and "tag_page R token u = None"
  shows "\<exists>e. paginate R body (Some u) token = Some (Inl e, [u])"
proof -
  obtain r q where rq: "request_json R u token = (r, q)" by (cases "request_json R u token")
  have q: "q = [u]" using request_json_trace[of R u token] rq by simp
  show ?thesis
  proof (cases r)
    case (Inl e)
    then show ?thesis by (subst paginate.simps) (simp add: assms(1) rq q)
  next
    case (Inr p)
    obtain data headers where p: "p = (data, headers)" by (cases p)
    have "\<forall>items. data \<noteq> JList items"
      using assms(2) rq Inr p by (auto simp: tag_page_def)
    then show ?thesis
      by (subst paginate.simps) (cases data; simp add: assms(1) rq q Inr p)
  qed
qed

lemma paginate_fails:
  assumes "u \<noteq> []"
    and "linked R token (u # us)"
    and "\<forall>x\<in>set (butlast (u # us)). well_formed_page R token x \<and> \<not> marker_on R token x"
    and "tag_page R token (last (u # us)) = None"
  shows "\<exists>e. paginate R tag_body (Some u) token = Some (Inl e, u # us)"
  using assms
proof (induction us arbitrary: u)
  case Nil
  then show ?case using paginate_bad_page[of u R token tag_body] by simp
next
  case (Cons v vs)
  have wf: "well_formed_page R token u" and nm: "\<not> marker_on R token u" using Cons.prems(3) by simp_all
  have nx: "page_next R token u = Some v" using Cons.prems(2) by simp
  have v: "v \<noteq> []" using page_next_nonempty[OF nx] .
  from Cons.IH[OF v] Cons.prems(2,3,4) obtain e where
    "paginate R tag_body (Some v) token = Some (Inl e, v # vs)" by auto
  then show ?case using paginate_tag_page[OF Cons.prems(1) wf] nm nx by simp
qed


lemma paginate_sound:
  assumes "paginate R body url token = Some y"
  shows "\<forall>r. fst y = Inr r \<longrightarrow> (\<forall>u\<in>set (snd y). tag_page R token u \<noteq> None)"
proof (rule paginate.raw_induct[where P = "\<lambda>R body url token y.
          \<forall>r. fst y = Inr r \<longrightarrow> (\<forall>u\<in>set (snd y). tag_page R token u \<noteq> None)", OF _ assms],
       goal_cases)
  case (1 pag R body url token y)
  show ?case
  proof (cases url)
    case None
    then show ?thesis using 1(2) by auto
  next
    case (Some u)
    show ?thesis
    proof (cases "u = []")
      case True
      then show ?thesis using 1(2) Some by auto
    next
      case False
      show ?thesis
      proof (cases "tag_page R token u")
        case None
        obtain r0 q0 where rq0: "request_json R u token = (r0, q0)" by (cases "request_json R u token")
        have q0: "q0 = [u]" using request_json_trace[of R u token] rq0 by simp
        have "\<exists>e. request_json R u token = (Inl e, [u])
            \<or> (\<exists>d hs. request_json R u token = (Inr (d, hs), [u]) \<and> (\<forall>items. d \<noteq> JList items))"
          using None rq0 q0 by (cases r0) (auto simp: tag_page_def split: json.splits)
        then have "\<exists>e q. y = (Inl e, q)"
          using 1(2) Some False by (auto split: json.splits)
        then show ?thesis by auto
      next
        case (Some p)
        obtain items n where p: "p = (items, n)" by (cases p)
        from Some[unfolded p tag_page_request]
        obtain headers where rq: "request_json R u token = (Inr (JList items, headers), [u])"
          and n: "n = next_link headers"
          by auto
        have here: "tag_page R token u \<noteq> None" using Some by simp
        show ?thesis
        proof (cases "for_each body items")
          case (Inl e)
          then have "y = (Inl e, [u])" using 1(2) \<open>url = Some u\<close> False rq by simp
          then show ?thesis by simp
        next
          case (Inr fl)
          show ?thesis
          proof (cases fl)
            case Continue
            then have "Option.bind (pag R body n token) (\<lambda>(r, q'). Some (r, [u] @ q')) = Some y"
              using 1(2) \<open>url = Some u\<close> False rq Inr n by simp
            then obtain r q' where rec: "pag R body n token = Some (r, q')" and y: "y = (r, [u] @ q')"
              by (auto simp: bind_eq_Some_conv)
            from 1(1)[OF rec] have "\<forall>r'. r = Inr r' \<longrightarrow> (\<forall>u\<in>set q'. tag_page R token u \<noteq> None)" by simp
            then show ?thesis using y here by auto
          next
            case (Return r)
            then have "y = (Inr (Some r), [u])" using 1(2) \<open>url = Some u\<close> False rq Inr by simp
            then show ?thesis using here by simp
          qed
        qed
      qed
    qed
  qed
qed

lemma tags_sound:
  assumes "repo_has_required_tag R repo token = Some (Inr b, q)"
  shows "\<forall>u\<in>set q. tag_page R token u \<noteq> None"
proof -
  from assms obtain r where "paginate R tag_body (Some (tags_url repo)) token = Some (Inr r, q)"
    by (auto simp: repo_has_required_tag_def split: option.splits sum.splits prod.splits)
  from paginate_sound[OF this] show ?thesis by simp
qed

lemma check_rule_sound:
  assumes "check_rule R rule token = Some (Inr b, q)"
  shows "(answered R token (repo_url rule) \<or> (not_found R token (repo_url rule) \<and> \<not> b))
       \<and> (\<forall>u\<in>set (tl q). tag_page R token u \<noteq> None)"
proof (cases "found_active R token rule")
  case True
  then have a: "answered R token (repo_url rule)"
    by (auto simp: found_active_def answered_def split: reply.splits)
  from assms check_rule_active[OF True] obtain q' where
    t: "repo_has_required_tag R rule token = Some (Inr b, q')" and q: "q = [repo_url rule] @ q'"
    by (auto simp: bind_eq_Some_conv)
  show ?thesis using a tags_sound[OF t] q by simp
next
  case False
  have e: "repo_exists R rule token = (Inr b, q)"
    using check_rule_inactive[OF False] assms by simp
  have q: "q = [repo_url rule]" and b: "\<not> b"
    using check_rule_inactive[OF False] e by simp_all
  have "answered R token (repo_url rule) \<or> not_found R token (repo_url rule)"
    using e by (auto simp: repo_exists_eq answered_def not_found_def split: reply.splits if_splits)
  then show ?thesis using q b by auto
qed

lemma check_rule_failed_lookup:
  assumes "\<not> answered R token (repo_url rule)" and "\<not> not_found R token (repo_url rule)"
  shows "\<exists>e. check_rule R rule token = Some (Inl e, [repo_url rule])"
proof -
  have "\<exists>e. repo_exists R rule token = (Inl e, [repo_url rule])"
    using assms by (auto simp: repo_exists_eq answered_def not_found_def split: reply.splits)
  then show ?thesis by (auto simp: check_rule_def)
qed

lemma check_rule_failed_page:
  assumes "found_active R token rule"
    and "linked R token (tags_url rule # us)"
    and "\<forall>x\<in>set (butlast (tags_url rule # us)). well_formed_page R token x \<and> \<not> marker_on R token x"
    and "tag_page R token (last (tags_url rule # us)) = None"
  shows "\<exists>e. check_rule R rule token = Some (Inl e, repo_url rule # tags_url rule # us)"
proof -
  from paginate_fails[OF tags_url_nonempty assms(2,3,4)] obtain e where
    "paginate R tag_body (Some (tags_url rule)) token = Some (Inl e, tags_url rule # us)" by blast
  then have "repo_has_required_tag R rule token = Some (Inl e, tags_url rule # us)"
    by (simp add: repo_has_required_tag_def)
  then show ?thesis using check_rule_active[OF assms(1)] by simp
qed

lemma sync_loop_fatal:
  assumes "\<forall>x\<in>set pre. verdict R token x \<noteq> None"
    and "check_rule R bad token = Some (Inl e, q)"
  shows "sync_loop R token (pre @ bad # post) kept removed =
           Some (Inl e, concat (map (trace_of R token) pre) @ q)"
  using assms(1)
proof (induction pre arbitrary: kept removed)
  case Nil
  show ?case using assms(2) by simp
next
  case (Cons x pre)
  show ?case
  proof (cases rule: check_rule_cases[of R x token])
    case diverges
    then show ?thesis using Cons.prems by (simp add: verdict_def)
  next
    case (fatal e0 q0)
    then show ?thesis using Cons.prems by (simp add: verdict_def)
  next
    case (decided b q0)
    have tr: "trace_of R token x = q0" using decided by (simp add: trace_of_def)
    have "sync_loop R token (pre @ bad # post) (if b then kept @ [x] else kept)
            (if b then removed else removed @ [x]) =
          Some (Inl e, concat (map (trace_of R token) pre) @ q)"
      using Cons.IH Cons.prems by simp
    then show ?thesis using decided tr by simp
  qed
qed


lemma unexpected_lookup: "repo_exists unexpected_remote repo token = (Inr False, [repo_url repo])"
  by (simp add: repo_exists_eq found_active_def unexpected_remote_def)

lemma unexpected_rule: "check_rule unexpected_remote rule token = Some (Inr False, [repo_url rule])"
  by (simp add: check_rule_def unexpected_lookup)

text \<open>
  Claim C1, as stated, fails: a metadata payload that decodes but is not a JSON object is
  an unexpected payload, and \<open>repo_exists\<close> answers it with \<open>False\<close>. With the sample
  file, a run in apply mode against such a service removes both entries and writes the
  empty text.
\<close>

theorem unexpected_payload_counterexample:
  "check_rule unexpected_remote (str ''r1'') (str ''t'') = Some (Inr False, [repo_url (str ''r1'')])
   \<and> sync_ruleset unexpected_remote (str ''rulesets/a.txt'') (str ''t'') False demo_world =
       Some (Inr (True, [str ''r1'', str ''r2'']),
             write_text (record_requests demo_world [repo_url (str ''r1''), repo_url (str ''r2'')])
               (str ''rulesets/a.txt'') [])"
proof -
  have l: "sync_loop unexpected_remote (str ''t'') (read_loop (splitlines (str ''r1\<newline>r2\<newline>'')) [] {}) [] [] =
      Some (Inr ([], [str ''r1'', str ''r2'']), [repo_url (str ''r1''), repo_url (str ''r2'')])"
    unfolding demo_rules by (simp add: unexpected_rule)
  have ne: "serialized [] \<noteq> str ''r1\<newline>r2\<newline>''" by (simp add: serialized_def str_def)
  have s: "serialized [] = []" by (simp add: serialized_def)
  show ?thesis
    using sync_ruleset_eval[OF demo_file l, of False] ne by (simp add: unexpected_rule s)
qed

text \<open>
  Claim C1, amended. A verdict for a rule is returned only when the metadata lookup was
  answered with a payload, or was answered with status 404 and the verdict is
  ineligible, and every tag page requested was a JSON list. A metadata lookup that fails
  in any other way (another HTTP status, no connection, a timeout, an undecodable body)
  raises, and so does a tag page that is not a JSON list or whose request fails, 404
  included. An error raised for a rule leaves \<open>sync_ruleset\<close> and the loop of \<open>main\<close>
  as that error, and the file is not written.
\<close>

theorem remote_failure_fatal:
  "(check_rule R rule token = Some (Inr b, q) \<longrightarrow>
      (answered R token (repo_url rule) \<or> (not_found R token (repo_url rule) \<and> \<not> b))
      \<and> (\<forall>u\<in>set (tl q). tag_page R token u \<noteq> None))
   \<and> (\<not> answered R token (repo_url rule2) \<and> \<not> not_found R token (repo_url rule2) \<longrightarrow>
      (\<exists>e. check_rule R rule2 token = Some (Inl e, [repo_url rule2])))
   \<and> (found_active R token rule3 \<and> linked R token (tags_url rule3 # us)
       \<and> (\<forall>x\<in>set (butlast (tags_url rule3 # us)). well_formed_page R token x \<and> \<not> marker_on R token x)
       \<and> tag_page R token (last (tags_url rule3 # us)) = None \<longrightarrow>
      (\<exists>e. check_rule R rule3 token = Some (Inl e, repo_url rule3 # tags_url rule3 # us)))
   \<and> (read_text w path = Inr original \<and> read_loop (splitlines original) [] {} = pre @ bad # post
       \<and> (\<forall>x\<in>set pre. verdict R token x \<noteq> None) \<and> check_rule R bad token = Some (Inl e, q2) \<longrightarrow>
      (\<exists>w1. sync_ruleset R path token check_only w = Some (Inl e, w1) \<and> files w1 = files w
            \<and> main_loop R token check_only (path # paths) changed_any w = Some (Inl e, w1)))"
proof -
  have p4: "\<exists>w1. sync_ruleset R path token check_only w = Some (Inl e, w1) \<and> files w1 = files w
            \<and> main_loop R token check_only (path # paths) changed_any w = Some (Inl e, w1)"
    if f: "read_text w path = Inr original"
      and r: "read_loop (splitlines original) [] {} = pre @ bad # post"
      and d: "\<forall>x\<in>set pre. verdict R token x \<noteq> None"
      and c: "check_rule R bad token = Some (Inl e, q2)"
  proof -
    have l: "sync_loop R token (read_loop (splitlines original) [] {}) [] [] =
        Some (Inl e, concat (map (trace_of R token) pre) @ q2)"
      unfolding r using sync_loop_fatal[OF d c] .
    from sync_ruleset_fatal[OF f l, of check_only]
    have s: "sync_ruleset R path token check_only w =
        Some (Inl e, record_requests w (concat (map (trace_of R token) pre) @ q2))" .
    then have "main_loop R token check_only (path # paths) changed_any w =
        Some (Inl e, record_requests w (concat (map (trace_of R token) pre) @ q2))" by simp
    moreover have "files (record_requests w (concat (map (trace_of R token) pre) @ q2)) = files w"
      by (simp add: record_requests_def)
    ultimately show ?thesis using s by blast
  qed
  show ?thesis
    using check_rule_sound[of R rule token b q] check_rule_failed_lookup[of R token rule2]
      check_rule_failed_page[of R token rule3 us] p4
    by blast
qed


lemma demo_url_r4: "repo_url (str ''r4'') = str ''https://api.github.com/repos/CursorCult/r4''"
  by (simp add: url_defs)

lemma demo_url_r5: "repo_url (str ''r5'') = str ''https://api.github.com/repos/CursorCult/r5''"
  by (simp add: url_defs)

lemma demo_tags_r5: "tags_url (str ''r5'') = str ''https://api.github.com/repos/CursorCult/r5/tags?per_page=100''"
  by (simp add: url_defs)

lemma demo_reply_r4:
  "demo_remote (repo_url (str ''r4'')) (str ''t'') = HTTPError 403 (Some (str ''rate limit exceeded''))"
  unfolding demo_url_r4 by (simp add: demo_remote_def str_def)

lemma demo_r4:
  "check_rule demo_remote (str ''r4'') (str ''t'') =
     Some (Inl (GitHubApiError 403 (repo_url (str ''r4'')) (str ''rate limit exceeded'')), [repo_url (str ''r4'')])"
  by (simp add: check_rule_def repo_exists_eq demo_reply_r4)

lemma demo_active_r5: "found_active demo_remote (str ''t'') (str ''r5'')"
  unfolding found_active_def demo_url_r5 by (simp add: demo_remote_def dict_get_def str_def)

lemma demo_no_tags_r5: "tag_page demo_remote (str ''t'') (tags_url (str ''r5'')) = None"
  unfolding tag_page_def request_json_tags unfolding demo_tags_r5 by (simp add: demo_remote_def str_def)

lemma demo_rules4: "read_loop (splitlines (str ''r1\<newline>r4\<newline>'')) [] {} = [str ''r1'', str ''r4'']"
  by (simp add: splitlines_def is_linebreak_def str_def strip_def isspace_def startswith_def
        normalize_rule_name_def)

theorem remote_failure_fatal_witness:
  "answered demo_remote (str ''t'') (repo_url (str ''r1''))
   \<and> (\<exists>e. check_rule demo_remote (str ''r4'') (str ''t'') = Some (Inl e, [repo_url (str ''r4'')]))
   \<and> (\<exists>e. check_rule demo_remote (str ''r5'') (str ''t'') =
            Some (Inl e, [repo_url (str ''r5''), tags_url (str ''r5'')]))
   \<and> (\<exists>w1. sync_ruleset demo_remote (str ''rulesets/a.txt'') (str ''t'') False
              (demo_world\<lparr>files := [str ''rulesets/a.txt'' \<mapsto> str ''r1\<newline>r4\<newline>'']\<rparr>)
            = Some (Inl (GitHubApiError 403 (repo_url (str ''r4'')) (str ''rate limit exceeded'')), w1)
          \<and> files w1 = [str ''rulesets/a.txt'' \<mapsto> str ''r1\<newline>r4\<newline>'']
          \<and> main_loop demo_remote (str ''t'') False [str ''rulesets/a.txt''] False
              (demo_world\<lparr>files := [str ''rulesets/a.txt'' \<mapsto> str ''r1\<newline>r4\<newline>'']\<rparr>)
            = Some (Inl (GitHubApiError 403 (repo_url (str ''r4'')) (str ''rate limit exceeded'')), w1))"
proof -
  have na: "\<not> answered demo_remote (str ''t'') (repo_url (str ''r4''))"
    and nf: "\<not> not_found demo_remote (str ''t'') (repo_url (str ''r4''))"
    by (simp_all add: answered_def not_found_def demo_reply_r4)
  have nf1: "\<not> not_found demo_remote (str ''t'') (repo_url (str ''r1''))"
    unfolding not_found_def demo_url_r1 by (simp add: demo_remote_def str_def)
  have v: "verdict demo_remote (str ''t'') (str ''r1'') \<noteq> None"
    by (simp add: verdict_def demo_r1)
  have f: "read_text (demo_world\<lparr>files := [str ''rulesets/a.txt'' \<mapsto> str ''r1\<newline>r4\<newline>'']\<rparr>) (str ''rulesets/a.txt'')
      = Inr (str ''r1\<newline>r4\<newline>'')" by (simp add: read_text_def str_def)
  show ?thesis
    using remote_failure_fatal[where R = demo_remote and token = "str ''t''" and rule = "str ''r1''"
        and b = True and q = "[repo_url (str ''r1''), tags_url (str ''r1''), str ''https://api.github.com/p2'']"
        and ?rule2.0 = "str ''r4''" and ?rule3.0 = "str ''r5''" and us = "[]"
        and w = "demo_world\<lparr>files := [str ''rulesets/a.txt'' \<mapsto> str ''r1\<newline>r4\<newline>'']\<rparr>"
        and path = "str ''rulesets/a.txt''" and original = "str ''r1\<newline>r4\<newline>''"
        and pre = "[str ''r1'']" and bad = "str ''r4''" and post = "[]"
        and e = "GitHubApiError 403 (repo_url (str ''r4'')) (str ''rate limit exceeded'')"
        and ?q2.0 = "[repo_url (str ''r4'')]" and check_only = False and paths = "[]"
        and changed_any = False]
      demo_r1 demo_r4 na nf nf1 v demo_active_r5 demo_no_tags_r5 demo_rules4 f
    by simp
qed

end
